theory Spec2Isabelle
  imports Main "HOL-Library.Log_Nat" "HOL-Library.Sublist"
begin

chapter \<open>The embedding\<close>

section \<open>JavaScript strings and numbers\<close>

text \<open>
  A JavaScript string is modelled as a \<^typ>\<open>string\<close>: a list of 8-bit characters, read as
  the code units 0..255. Code units above 255 are outside the model.
\<close>

definition is_digit :: "char \<Rightarrow> bool" where
  "is_digit c = ((48::nat) \<le> of_char c \<and> of_char c \<le> (57::nat))"

definition digit_value :: "char \<Rightarrow> nat" where
  "digit_value c = of_char c - 48"

text \<open>The mathematical value of a run of decimal digits.\<close>

definition decimal_value :: "string \<Rightarrow> nat" where
  "decimal_value ds = foldl (\<lambda>a c. 10 * a + digit_value c) 0 ds"

text \<open>
  \<^verbatim>\<open>s.split(sep)\<close> for a separator of one character: the pieces between the
  separators, empty pieces included; the empty string gives one empty piece.
  \<open>split_from\<close> carries the piece being read, last character first.
\<close>

fun split_from :: "char \<Rightarrow> string \<Rightarrow> string \<Rightarrow> string list" where
  "split_from sep cur [] = [rev cur]"
| "split_from sep cur (c # cs) =
     (if c = sep then rev cur # split_from sep [] cs else split_from sep (c # cur) cs)"

definition split_js :: "char \<Rightarrow> string \<Rightarrow> string list" where
  "split_js sep s = split_from sep [] s"

text \<open>
  A Number is an IEEE 754 binary64 value. A finite one is carried as the rational it
  denotes. The sign of zero is not represented: nothing in this program tells -0 from +0
  (\<^verbatim>\<open>String(-0)\<close> is \<^verbatim>\<open>"0"\<close>, and \<^verbatim>\<open>==\<close> and \<^verbatim>\<open>>\<close> identify the two).
\<close>

datatype jsnum = NaN | NegInfinity | Fin rat | PosInfinity

definition pow2 :: "int \<Rightarrow> rat" where
  "pow2 k = (if 0 \<le> k then 2 ^ nat k else 1 / 2 ^ nat (- k))"

text \<open>The exponent \<open>k\<close> with \<open>2^k \<le> q < 2^(k+1)\<close>, for a positive rational.\<close>

definition floor_log2 :: "rat \<Rightarrow> int" where
  "floor_log2 q =
     (let (a, b) = quotient_of q; k = bitlen a - bitlen b
      in if pow2 k \<le> q then k else k - 1)"

definition round_half_even :: "rat \<Rightarrow> int" where
  "round_half_even x =
     (let f = \<lfloor>x\<rfloor>; d = x - of_int f
      in if d < 1 / 2 then f else if 1 / 2 < d then f + 1 else if even f then f else f + 1)"

text \<open>
  Rounding of a non-negative rational to binary64, to nearest with ties to even: 53
  significant bits, the exponent of the last bit at least -1074, and overflow to
  infinity from \<open>2^1024\<close>. The integers up to \<open>2^53\<close> are binary64 values and round to
  themselves; the first branch says so outright.
\<close>

definition round_double :: "rat \<Rightarrow> jsnum" where
  "round_double q =
     (if q = of_int \<lfloor>q\<rfloor> \<and> 0 \<le> q \<and> q \<le> 2 ^ 53 then Fin q
      else
        (let e = max (floor_log2 q - 52) (- 1074);
             v = of_int (round_half_even (q / pow2 e)) * pow2 e
         in if 2 ^ 1024 \<le> v then PosInfinity else Fin v))"

definition negate :: "jsnum \<Rightarrow> jsnum" where
  "negate x =
     (case x of NaN \<Rightarrow> NaN | NegInfinity \<Rightarrow> PosInfinity
      | Fin q \<Rightarrow> Fin (- q) | PosInfinity \<Rightarrow> NegInfinity)"

text \<open>
  \<^verbatim>\<open>Number(s)\<close> for a string \<open>s\<close>, after ECMAScript's StringNumericLiteral grammar:
  white space around the literal is dropped; the empty literal is 0; a literal is a
  signed decimal (\<^verbatim>\<open>Infinity\<close>, or digits with an optional exponent part) or an unsigned
  binary, octal or hexadecimal integer; anything else is NaN. The grammar's decimal
  point is left out: the strings converted here are pieces of a split at \<^verbatim>\<open>"."\<close>.
  For a literal of more than 20 significant digits ECMAScript lets the implementation
  choose between two neighbouring values; the model rounds the exact value, as V8 does.
\<close>

definition StrWhiteSpaceChar :: "char \<Rightarrow> bool" where
  "StrWhiteSpaceChar c = ((of_char c :: nat) \<in> {9, 10, 11, 12, 13, 32, 160})"

definition trim_js :: "string \<Rightarrow> string" where
  "trim_js s = rev (dropWhile StrWhiteSpaceChar (rev (dropWhile StrWhiteSpaceChar s)))"

definition hex_digit_value :: "char \<Rightarrow> nat option" where
  "hex_digit_value c =
     (let n = (of_char c :: nat)
      in if 48 \<le> n \<and> n \<le> 57 then Some (n - 48)
         else if 65 \<le> n \<and> n \<le> 70 then Some (n - 55)
         else if 97 \<le> n \<and> n \<le> 102 then Some (n - 87)
         else None)"

text \<open>The digits of a literal in base \<open>b\<close>: its value, when it is not empty and every
  character is a digit below \<open>b\<close>.\<close>

definition radix_value :: "nat \<Rightarrow> string \<Rightarrow> nat option" where
  "radix_value b ds =
     (if ds \<noteq> [] \<and> list_all (\<lambda>c. case hex_digit_value c of None \<Rightarrow> False | Some d \<Rightarrow> d < b) ds
      then Some (foldl (\<lambda>a c. b * a + the (hex_digit_value c)) 0 ds)
      else None)"

definition NonDecimalIntegerLiteral :: "string \<Rightarrow> nat option" where
  "NonDecimalIntegerLiteral t =
     (case t of
        z # x # ds \<Rightarrow>
          if z \<noteq> CHR ''0'' then None
          else if x = CHR ''b'' \<or> x = CHR ''B'' then radix_value 2 ds
          else if x = CHR ''o'' \<or> x = CHR ''O'' then radix_value 8 ds
          else if x = CHR ''x'' \<or> x = CHR ''X'' then radix_value 16 ds
          else None
      | _ \<Rightarrow> None)"

definition DecimalDigits :: "string \<Rightarrow> nat option" where
  "DecimalDigits ds = (if ds \<noteq> [] \<and> list_all is_digit ds then Some (decimal_value ds) else None)"

definition SignedInteger :: "string \<Rightarrow> int option" where
  "SignedInteger x =
     (case x of
        [] \<Rightarrow> None
      | c # ds \<Rightarrow>
          if c = CHR ''+'' then map_option int (DecimalDigits ds)
          else if c = CHR ''-'' then map_option (\<lambda>n. - int n) (DecimalDigits ds)
          else map_option int (DecimalDigits x))"

definition StrUnsignedDecimalLiteral :: "string \<Rightarrow> jsnum" where
  "StrUnsignedDecimalLiteral u =
     (if u = ''Infinity'' then PosInfinity
      else
        (let ds = takeWhile is_digit u; r = dropWhile is_digit u
         in if ds = [] then NaN
            else
              (case r of
                 [] \<Rightarrow> round_double (of_nat (decimal_value ds))
               | e # x \<Rightarrow>
                   if e = CHR ''e'' \<or> e = CHR ''E'' then
                     (case SignedInteger x of
                        None \<Rightarrow> NaN
                      | Some k \<Rightarrow> round_double (of_nat (decimal_value ds) * 10 powi k))
                   else NaN)))"

definition Number_js :: "string \<Rightarrow> jsnum" where
  "Number_js s =
     (let t = trim_js s
      in if t = [] then Fin 0
         else
           (case NonDecimalIntegerLiteral t of
              Some n \<Rightarrow> round_double (of_nat n)
            | None \<Rightarrow>
                (case t of
                   [] \<Rightarrow> Fin 0
                 | c # u \<Rightarrow>
                     if c = CHR ''+'' then StrUnsignedDecimalLiteral u
                     else if c = CHR ''-'' then negate (StrUnsignedDecimalLiteral u)
                     else StrUnsignedDecimalLiteral t)))"

text \<open>\<^verbatim>\<open>x == y\<close> and \<^verbatim>\<open>x > y\<close> on Numbers: NaN compares false with everything.\<close>

definition js_eq :: "jsnum \<Rightarrow> jsnum \<Rightarrow> bool" where
  "js_eq x y = (x \<noteq> NaN \<and> x = y)"

fun js_gt :: "jsnum \<Rightarrow> jsnum \<Rightarrow> bool" where
  "js_gt NaN y = False"
| "js_gt x NaN = False"
| "js_gt x PosInfinity = False"
| "js_gt PosInfinity y = True"
| "js_gt NegInfinity y = False"
| "js_gt x NegInfinity = True"
| "js_gt (Fin a) (Fin b) = (b < a)"

text \<open>The primitive values a caller can pass where the code expects a string.\<close>

datatype jsval = JUndefined | JNull | JBoolean bool | JNumber jsnum | JString string

datatype js_error = TypeError | SyntaxError

section \<open>compareVersions\<close>

text \<open>
  \<^verbatim>\<open>isValidPart(x)\<close> is \<^verbatim>\<open>(/^\d+$/).test(x)\<close>, and it is applied after
  \<^verbatim>\<open>v1 = v1.map(Number)\<close>: \<open>x\<close> is a Number, which \<^verbatim>\<open>test\<close> converts with ToString.
  The text of a Number consists of decimal digits only when the Number is zero or a
  positive integer below \<open>10^21\<close>: from \<open>10^21\<close> on the text has an exponent
  (\<^verbatim>\<open>"1e+21"\<close>), a fraction has a point or an exponent, a negative Number a sign, and
  the others read \<^verbatim>\<open>"NaN"\<close>, \<^verbatim>\<open>"Infinity"\<close> and \<^verbatim>\<open>"-Infinity"\<close>.
\<close>

definition isValidPart :: "jsnum \<Rightarrow> bool" where
  "isValidPart x =
     (case x of Fin q \<Rightarrow> 0 \<le> q \<and> q = of_int \<lfloor>q\<rfloor> \<and> q < 10 ^ 21 | _ \<Rightarrow> False)"

text \<open>\<^verbatim>\<open>xs[i]\<close>: \<^verbatim>\<open>undefined\<close> (here \<open>None\<close>) out of range.\<close>

definition js_index :: "'a list \<Rightarrow> nat \<Rightarrow> 'a option" where
  "js_index xs i = (if i < length xs then Some (xs ! i) else None)"

text \<open>
  The \<^verbatim>\<open>for\<close> loop of \<^verbatim>\<open>compareVersions\<close> from index \<open>i\<close> on, with the two tests that
  follow it. Against \<^verbatim>\<open>undefined\<close> both \<^verbatim>\<open>==\<close> and \<^verbatim>\<open>>\<close> are false, which leaves the
  last branch.
\<close>

function compareVersions_loop :: "nat \<Rightarrow> jsnum list \<Rightarrow> jsnum list \<Rightarrow> jsnum" where
  "compareVersions_loop i v1 v2 =
     (if i < length v1 then
        (if length v2 = i then Fin 1
         else
           (case js_index v2 i of
              None \<Rightarrow> Fin (- 1)
            | Some y \<Rightarrow>
                if js_eq (v1 ! i) y then compareVersions_loop (Suc i) v1 v2
                else if js_gt (v1 ! i) y then Fin 1
                else Fin (- 1)))
      else if length v1 \<noteq> length v2 then Fin (- 1)
      else Fin 0)"
  by pat_completeness auto
termination
  by (relation "measure (\<lambda>(i, v1, v2). length v1 - i)") auto

text \<open>
  The guard reads \<^verbatim>\<open>typeof version1 !== 'string' || typeof version1 !== 'string'\<close>:
  it tests \<^verbatim>\<open>version1\<close> twice and \<^verbatim>\<open>version2\<close> never. A \<^verbatim>\<open>version2\<close> that is not a
  string reaches \<^verbatim>\<open>version2.split(".")\<close>, which throws a TypeError on every primitive
  that is not a string.
\<close>

definition compareVersions :: "jsval \<Rightarrow> jsval \<Rightarrow> js_error + jsnum" where
  "compareVersions version1 version2 =
     (case version1 of
        JString s1 \<Rightarrow>
          (case version2 of
             JString s2 \<Rightarrow>
               (let v1 = map Number_js (split_js CHR ''.'' s1);
                    v2 = map Number_js (split_js CHR ''.'' s2)
                in if \<not> list_all isValidPart v1 \<or> \<not> list_all isValidPart v2 then Inr NaN
                   else Inr (compareVersions_loop 0 v1 v2))
           | _ \<Rightarrow> Inl TypeError)
      | _ \<Rightarrow> Inr NaN)"


text \<open>
  The positional comparison in the specification's words, on the integer values of the
  parts: the first position that decides, and the lengths when none does.
\<close>

fun positional :: "nat list \<Rightarrow> nat list \<Rightarrow> int" where
  "positional [] [] = 0"
| "positional [] (y # ys) = - 1"
| "positional (x # xs) [] = 1"
| "positional (x # xs) (y # ys) =
     (if x = y then positional xs ys else if y < x then 1 else - 1)"

definition nat_num :: "nat \<Rightarrow> jsnum" where
  "nat_num n = Fin (of_nat n)"

text \<open>A part is well-formed when it matches \<^verbatim>\<open>^\d+$\<close>.\<close>

definition wf_part :: "string \<Rightarrow> bool" where
  "wf_part p = (p \<noteq> [] \<and> list_all is_digit p)"

definition wf_parts :: "string \<Rightarrow> bool" where
  "wf_parts a = list_all wf_part (split_js CHR ''.'' a)"

definition part_values :: "string \<Rightarrow> nat list" where
  "part_values a = map decimal_value (split_js CHR ''.'' a)"

text \<open>Well-formed parts whose values binary64 holds exactly: none above \<open>2^53\<close>.\<close>

definition exact_parts :: "string \<Rightarrow> bool" where
  "exact_parts a =
     list_all (\<lambda>p. wf_part p \<and> decimal_value p \<le> 2 ^ 53) (split_js CHR ''.'' a)"

section \<open>Library descriptors and checkVersion\<close>

text \<open>
  A descriptor is a JavaScript object. Its fields are typed as the built-in registry
  has them, and a field the object does not have is \<open>None\<close>. The \<^verbatim>\<open>check\<close> function
  of a descriptor is named, not carried: \<open>Builtin k\<close> is the function literal of the
  \<open>k\<close>-th built-in descriptor, \<open>defaultCheck\<close> the function of that name.
\<close>

record min_version =
  major :: string
  minor :: string

datatype check_fn = Builtin nat | defaultCheck

record library =
  name :: "string option"
  minVersion :: "min_version option"
  patchOptional :: "bool option"
  bannedVersions :: "string list option"
  skip :: "bool option"
  match :: "string option"
  check :: "check_fn option"

text \<open>
  The record \<^verbatim>\<open>vinfo\<close> that \<^verbatim>\<open>checkVersion\<close> builds; \<^verbatim>\<open>checkScript\<close> adds \<^verbatim>\<open>url\<close> and
  \<^verbatim>\<open>lineNumber\<close> to it.
\<close>

record vinfo =
  name_v :: "string option"
  needsUpdate :: bool
  minVersion_v :: string
  version_v :: jsval
  bannedVersion :: "jsval option"
  url_v :: "string option"
  lineNumber_v :: "nat option"

text \<open>
  \<^verbatim>\<open>version.match(/^(\d+\.\d+)(.*)$/)\<close>: the two groups, when the string starts with
  digits, a point and digits. Both runs of digits are the longest ones (a shorter run
  would leave a digit where the point, or the end of the string, has to follow), and
  the rest must hold no line terminator, which \<^verbatim>\<open>.\<close> does not match.
\<close>

definition LineTerminator :: "char \<Rightarrow> bool" where
  "LineTerminator c = ((of_char c :: nat) \<in> {10, 13})"

definition patch_parts :: "string \<Rightarrow> (string \<times> string) option" where
  "patch_parts v =
     (let d1 = takeWhile is_digit v; r1 = dropWhile is_digit v
      in if d1 = [] then None
         else
           (case r1 of
              [] \<Rightarrow> None
            | c # r2 \<Rightarrow>
                if c \<noteq> CHR ''.'' then None
                else
                  (let d2 = takeWhile is_digit r2; rest = dropWhile is_digit r2
                   in if d2 = [] \<or> list_ex LineTerminator rest then None
                      else Some (d1 @ ''.'' @ d2, rest))))"

text \<open>\<^verbatim>\<open>/^\.\d+/.test(s)\<close>: a point and a digit at the start.\<close>

definition dot_digit :: "string \<Rightarrow> bool" where
  "dot_digit s = (case s of c # d # _ \<Rightarrow> c = CHR ''.'' \<and> is_digit d | _ \<Rightarrow> False)"

text \<open>
  The block under \<^verbatim>\<open>if (library.patchOptional)\<close>: the value of \<^verbatim>\<open>version\<close> after it.
  \<^verbatim>\<open>version.match\<close> on a value that is not a string throws a TypeError.
\<close>

definition patchOptional_version :: "library \<Rightarrow> jsval \<Rightarrow> js_error + jsval" where
  "patchOptional_version library version =
     (if patchOptional library = Some True then
        (case version of
           JString v \<Rightarrow>
             (case patch_parts v of
                None \<Rightarrow> Inr version
              | Some (p1, p2) \<Rightarrow>
                  if \<not> dot_digit p2 then Inr (JString (p1 @ ''.0'' @ p2)) else Inr version)
         | _ \<Rightarrow> Inl TypeError)
      else Inr version)"

text \<open>\<^verbatim>\<open>xs.indexOf(x)\<close> on an array: the first index holding \<open>x\<close>, or -1.\<close>

fun indexOf_from :: "'a list \<Rightarrow> 'a \<Rightarrow> int \<Rightarrow> int" where
  "indexOf_from [] x i = - 1"
| "indexOf_from (y # ys) x i = (if y = x then i else indexOf_from ys x (i + 1))"

definition indexOf_array :: "'a list \<Rightarrow> 'a \<Rightarrow> int" where
  "indexOf_array xs x = indexOf_from xs x 0"

text \<open>
  \<^verbatim>\<open>checkVersion(library, version)\<close>. Reading \<^verbatim>\<open>library.minVersion.major\<close> throws a
  TypeError when the descriptor has no \<^verbatim>\<open>minVersion\<close>. The test on \<^verbatim>\<open>bannedVersions\<close>
  comes after the patch block and reads the same variable \<^verbatim>\<open>version\<close>: it looks for
  the version as the block left it.
\<close>

definition checkVersion :: "library \<Rightarrow> jsval \<Rightarrow> js_error + vinfo" where
  "checkVersion library version =
     (case minVersion library of
        None \<Rightarrow> Inl TypeError
      | Some mv \<Rightarrow>
          (let vinfo = \<lparr>name_v = name library, needsUpdate = True,
                 minVersion_v = major mv @ minor mv, version_v = version,
                 bannedVersion = None, url_v = None, lineNumber_v = None\<rparr>
           in case patchOptional_version library version of
                Inl e \<Rightarrow> Inl e
              | Inr version' \<Rightarrow>
                  (case compareVersions version' (JString (minVersion_v vinfo)) of
                     Inl e \<Rightarrow> Inl e
                   | Inr c \<Rightarrow>
                       (let vinfo = vinfo\<lparr>needsUpdate := js_eq c (Fin (- 1))\<rparr>
                        in case bannedVersions library of
                             None \<Rightarrow> Inr vinfo
                           | Some banned \<Rightarrow>
                               if 0 \<le> indexOf_array (map JString banned) version'
                               then Inr (vinfo\<lparr>bannedVersion := Some version',
                                      needsUpdate := True\<rparr>)
                               else Inr vinfo))))"

section \<open>The built-in registry\<close>

text \<open>
  The sixteen descriptors of the array \<^verbatim>\<open>libraries\<close>, in its order. A descriptor
  written without \<^verbatim>\<open>patchOptional\<close> has none.
\<close>

definition builtin :: "nat \<Rightarrow> string \<Rightarrow> string \<Rightarrow> string \<Rightarrow> bool option \<Rightarrow> library" where
  "builtin k n mj mn po =
     \<lparr>name = Some n, minVersion = Some \<lparr>major = mj, minor = mn\<rparr>, patchOptional = po,
      bannedVersions = None, skip = None, match = None, check = Some (Builtin k)\<rparr>"

definition builtin_libraries :: "library list" where
  "builtin_libraries =
     [builtin 0 ''Prototype'' ''1.6.'' ''1'' None,
      builtin 1 ''Dojo'' ''1.5.'' ''3'' None,
      builtin 2 ''Mootools'' ''1.2.'' ''6'' None,
      builtin 3 ''SWFObject'' ''2.'' ''1'' None,
      builtin 4 ''jQuery Form Plugin'' ''3.'' ''19'' None,
      builtin 5 ''Modernizr'' ''1.1.'' [] None,
      builtin 6 ''jQuery cookie'' ''1.3.'' ''1'' (Some False),
      builtin 7 ''hoverIntent'' ''1.8.'' ''0'' (Some False),
      builtin 8 ''jQuery Easing'' ''1.3.'' ''0'' (Some True),
      builtin 9 ''underscore'' ''1.0.'' ''0'' (Some False),
      builtin 10 ''hammer js'' ''2.0.'' ''2'' (Some False),
      builtin 11 ''jQuery Superfish'' ''1.7.'' ''4'' (Some False),
      builtin 12 ''jQuery mousewheel'' ''3.1.'' ''12'' (Some True),
      builtin 13 ''jQuery mobile'' ''1.4.'' ''3'' (Some True),
      builtin 14 ''jQuery UI'' ''1.8.'' ''24'' None,
      builtin 15 ''jQuery'' ''1.6.'' ''4'' (Some True)]"

section \<open>Running a descriptor's check\<close>

text \<open>
  The check functions find the version with regular expressions, and the regular
  expression engine is a parameter of the model. Every built-in check function either
  returns a falsy value or ends in \<^verbatim>\<open>checkVersion(this, v)\<close> for a string \<open>v\<close> it has put
  together from the groups of a match: \<open>builtin_version k text\<close> is that string for the
  \<open>k\<close>-th built-in function and the script text \<open>text\<close>, \<open>None\<close> when the function returns
  falsy, and an error when it throws (the jQuery function builds a second expression
  from the text it matched, and \<^verbatim>\<open>new RegExp\<close> throws on a malformed one).
  \<open>RegExp_m pattern text\<close> is \<^verbatim>\<open>text.match(new RegExp(pattern, "m"))\<close> as
  \<^verbatim>\<open>defaultCheck\<close> uses it: \<open>None\<close> for no match, else the value of group 1, which is
  \<^verbatim>\<open>undefined\<close> when the expression has no such group.
\<close>

record regex_engine =
  builtin_version :: "nat \<Rightarrow> string \<Rightarrow> js_error + string option"
  RegExp_m :: "string option \<Rightarrow> string \<Rightarrow> js_error + jsval option"

text \<open>
  \<^verbatim>\<open>lib.check.call(lib, scriptText)\<close>: \<open>None\<close> is a falsy result. Calling the \<^verbatim>\<open>check\<close>
  of a descriptor that has none throws a TypeError.
\<close>

definition lib_check :: "regex_engine \<Rightarrow> library \<Rightarrow> string \<Rightarrow> js_error + vinfo option" where
  "lib_check engine lib scriptText =
     (case check lib of
        None \<Rightarrow> Inl TypeError
      | Some (Builtin k) \<Rightarrow>
          (case builtin_version engine k scriptText of
             Inl e \<Rightarrow> Inl e
           | Inr None \<Rightarrow> Inr None
           | Inr (Some v) \<Rightarrow> map_sum id Some (checkVersion lib (JString v)))
      | Some defaultCheck \<Rightarrow>
          (case RegExp_m engine (match lib) scriptText of
             Inl e \<Rightarrow> Inl e
           | Inr None \<Rightarrow> Inr None
           | Inr (Some g) \<Rightarrow> map_sum id Some (checkVersion lib g)))"

section \<open>checkScript and check\<close>

record script =
  jsUrl :: string
  content_js :: "string option"

text \<open>The fields of \<^verbatim>\<open>website\<close> the two analyzers read; \<open>href_w\<close> is \<^verbatim>\<open>website.url.href\<close>.\<close>

record website =
  href_w :: string
  originalUrl_w :: string
  content_w :: string
  js_w :: "script list"

text \<open>
  \<^verbatim>\<open>s.indexOf(p)\<close> on strings: the first position where \<open>p\<close> starts, or -1.
  \<open>indexOf_str\<close> carries the position reached.
\<close>

fun indexOf_str :: "string \<Rightarrow> string \<Rightarrow> int \<Rightarrow> int" where
  "indexOf_str [] p i = (if p = [] then i else - 1)"
| "indexOf_str (c # cs) p i = (if prefix p (c # cs) then i else indexOf_str cs p (i + 1))"

definition indexOf_js :: "string \<Rightarrow> string \<Rightarrow> int" where
  "indexOf_js s p = indexOf_str s p 0"

text \<open>
  \<^verbatim>\<open>s.substr(start, length)\<close>: a negative start counts from the end, a negative length
  is taken as 0, and the piece stops at the end of the string.
\<close>

definition substr_js :: "string \<Rightarrow> int \<Rightarrow> int \<Rightarrow> string" where
  "substr_js s start len =
     (let size = int (length s);
          st = (if start < 0 then max (size + start) 0 else min start size);
          l = min (max len 0) (size - st)
      in take (nat l) (drop (nat st) s))"

record status =
  passed_s :: bool
  data_s :: "vinfo option"

text \<open>
  The \<^verbatim>\<open>for\<close> loop of \<^verbatim>\<open>checkScript\<close> over the registry, from the descriptors still
  to visit. \<^verbatim>\<open>js.content || ""\<close> is the empty string when the script has no content.
  An exception of a check function leaves the loop and \<^verbatim>\<open>checkScript\<close>.
\<close>

fun checkScript_loop ::
  "regex_engine \<Rightarrow> script \<Rightarrow> website \<Rightarrow> library list \<Rightarrow> js_error + status" where
  "checkScript_loop engine js website [] = Inr \<lparr>passed_s = True, data_s = None\<rparr>"
| "checkScript_loop engine js website (lib # libs) =
     (if skip lib = Some True then checkScript_loop engine js website libs
      else if jsUrl js \<noteq> ''embed'' then
        (case lib_check engine lib (case content_js js of None \<Rightarrow> [] | Some c \<Rightarrow> c) of
           Inl e \<Rightarrow> Inl e
         | Inr None \<Rightarrow> checkScript_loop engine js website libs
         | Inr (Some result) \<Rightarrow>
             if needsUpdate result then
               (let pos = indexOf_js (content_w website) (jsUrl js);
                    lineNumber =
                      length (split_js (CHR 0x0A) (substr_js (content_w website) 0 pos))
                in Inr \<lparr>passed_s = False,
                        data_s = Some (result\<lparr>url_v := Some (jsUrl js),
                                  lineNumber_v := Some lineNumber\<rparr>)\<rparr>)
             else checkScript_loop engine js website libs)
      else checkScript_loop engine js website libs)"

definition checkScript ::
  "regex_engine \<Rightarrow> library list \<Rightarrow> script \<Rightarrow> website \<Rightarrow> js_error + status" where
  "checkScript engine libraries js website = checkScript_loop engine js website libraries"

record test_jslibs =
  testName_t :: string
  url_t :: string
  passed_t :: bool
  data_t :: "vinfo option list"

text \<open>The \<^verbatim>\<open>for\<close> loop of \<^verbatim>\<open>check\<close> over \<^verbatim>\<open>website.js\<close>, from the scripts still to visit.\<close>

fun check_loop ::
  "regex_engine \<Rightarrow> library list \<Rightarrow> website \<Rightarrow> script list \<Rightarrow> test_jslibs \<Rightarrow>
   js_error + test_jslibs" where
  "check_loop engine libraries website [] test = Inr test"
| "check_loop engine libraries website (js # rest) test =
     (case checkScript engine libraries js website of
        Inl e \<Rightarrow> Inl e
      | Inr result \<Rightarrow>
          if \<not> passed_s result
          then check_loop engine libraries website rest
                 (test\<lparr>passed_t := False, data_t := data_t test @ [data_s result]\<rparr>)
          else check_loop engine libraries website rest test)"

text \<open>
  \<^verbatim>\<open>check(website)\<close> of the library analyzer, here \<open>check_libs\<close> (the name \<open>check\<close> is
  the descriptor's field): the value its promise is resolved with.
  The work runs in a \<^verbatim>\<open>process.nextTick\<close> callback; an exception there leaves the
  promise unresolved, which is the \<open>Inl\<close> result.
\<close>

definition check_libs ::
  "regex_engine \<Rightarrow> library list \<Rightarrow> website \<Rightarrow> js_error + test_jslibs" where
  "check_libs engine libraries website =
     check_loop engine libraries website (js_w website)
       \<lparr>testName_t = ''jslibs'', url_t = href_w website, passed_t = True, data_t = []\<rparr>"

text \<open>
  What the analyzer reports for one script, stated apart from the loops: the first
  descriptor of the registry that is not skipped and whose check asks for an update,
  with the result of that check annotated as \<^verbatim>\<open>checkScript\<close> annotates it. An embedded
  script has no report.
\<close>

definition script_text :: "script \<Rightarrow> string" where
  "script_text js = (case content_js js of None \<Rightarrow> [] | Some c \<Rightarrow> c)"

definition line_of :: "website \<Rightarrow> script \<Rightarrow> nat" where
  "line_of website js =
     length (split_js (CHR 0x0A)
       (substr_js (content_w website) 0 (indexOf_js (content_w website) (jsUrl js))))"

definition violating :: "regex_engine \<Rightarrow> script \<Rightarrow> library \<Rightarrow> bool" where
  "violating engine js lib =
     (skip lib \<noteq> Some True \<and>
      (case lib_check engine lib (script_text js) of
         Inr (Some r) \<Rightarrow> needsUpdate r
       | _ \<Rightarrow> False))"

definition first_violation ::
  "regex_engine \<Rightarrow> library list \<Rightarrow> website \<Rightarrow> script \<Rightarrow> vinfo option" where
  "first_violation engine libraries website js =
     (if jsUrl js = ''embed'' then None
      else
        (case find (violating engine js) libraries of
           None \<Rightarrow> None
         | Some lib \<Rightarrow>
             (case lib_check engine lib (script_text js) of
                Inr (Some r) \<Rightarrow>
                  Some (r\<lparr>url_v := Some (jsUrl js), lineNumber_v := Some (line_of website js)\<rparr>)
              | _ \<Rightarrow> None)))"

text \<open>No check function throws on a script of the page.\<close>

definition no_throw :: "regex_engine \<Rightarrow> library list \<Rightarrow> website \<Rightarrow> bool" where
  "no_throw engine libraries website =
     (\<forall>js \<in> set (js_w website). \<forall>lib \<in> set libraries.
        case lib_check engine lib (script_text js) of Inl e \<Rightarrow> False | Inr r \<Rightarrow> True)"

text \<open>
  An engine for the examples. It knows one script text, the header line of
  Prototype 1.5.0, from which the check function of the first built-in descriptor takes
  the version \<^verbatim>\<open>1.5.0\<close>; no other built-in expression matches that text.
\<close>

definition prototype_150 :: string where
  "prototype_150 = ''Prototype JavaScript framework, version 1.5.0''"

definition example_engine :: regex_engine where
  "example_engine =
     \<lparr>builtin_version =
        (\<lambda>k text. if k = 0 \<and> text = prototype_150 then Inr (Some ''1.5.0'') else Inr None),
      RegExp_m = (\<lambda>pattern text. Inr None)\<rparr>"

text \<open>A page of two lines, each loading one script, and both scripts hold that text.\<close>

definition two_scripts :: website where
  "two_scripts =
     \<lparr>href_w = ''http://example.com/'', originalUrl_w = ''example.com'',
      content_w = ''<script src=a.js></script>'' @ [CHR 0x0A] @ ''<script src=b.js></script>'',
      js_w = [\<lparr>jsUrl = ''a.js'', content_js = Some prototype_150\<rparr>,
              \<lparr>jsUrl = ''b.js'', content_js = Some prototype_150\<rparr>]\<rparr>"

section \<open>mergeConfig and merge\<close>

text \<open>
  \<^verbatim>\<open>mergeConfig\<close> copies the default descriptors into fresh objects, pushes override
  objects into the new array as they are, and writes into objects it reaches through
  \<^verbatim>\<open>libmap\<close>. Which objects it writes to is what the claims about it turn on, so the
  descriptors live in a store: an object is an address, the store holds the fields of
  each object, and an array of descriptors is a list of addresses. A new object takes
  the next free address.
\<close>

type_synonym addr = nat

type_synonym store = "library list"

text \<open>\<^verbatim>\<open>library.name\<close> as a condition: the name, when there is one and it is not empty.\<close>

definition truthy_name :: "library \<Rightarrow> string option" where
  "truthy_name l = (case name l of None \<Rightarrow> None | Some k \<Rightarrow> if k = [] then None else Some k)"

text \<open>
  \<^verbatim>\<open>libmap\<close> is a plain object used as a dictionary, \<^verbatim>\<open>var libmap = { }\<close>. Its own
  properties are kept as an association list, latest first. A key it does not own is
  looked up in \<^verbatim>\<open>Object.prototype\<close>: the members of that object are functions, except
  \<^verbatim>\<open>__proto__\<close>, which reads as \<^verbatim>\<open>Object.prototype\<close> itself.
\<close>

type_synonym libmap = "(string \<times> addr) list"

datatype slot = Absent | Own addr | Inherited_function | Object_prototype

definition Object_prototype_functions :: "string list" where
  "Object_prototype_functions =
     [''constructor'', ''__defineGetter__'', ''__defineSetter__'', ''hasOwnProperty'',
      ''__lookupGetter__'', ''__lookupSetter__'', ''isPrototypeOf'',
      ''propertyIsEnumerable'', ''toString'', ''valueOf'', ''toLocaleString'']"

definition libmap_get :: "libmap \<Rightarrow> string \<Rightarrow> slot" where
  "libmap_get m k =
     (case map_of m k of
        Some a \<Rightarrow> Own a
      | None \<Rightarrow>
          if k = ''__proto__'' then Object_prototype
          else if k \<in> set Object_prototype_functions then Inherited_function
          else Absent)"

text \<open>
  How a call ends: it returns, it throws, or it leaves the model. The last is for the
  two places where the source assigns through \<^verbatim>\<open>__proto__\<close>: a default named
  \<^verbatim>\<open>__proto__\<close> replaces the prototype of \<^verbatim>\<open>libmap\<close>, and an override named \<^verbatim>\<open>__proto__\<close>
  has its fields written into \<^verbatim>\<open>Object.prototype\<close>. The source carries on from there
  with objects this store does not hold, and this store follows it no further; the
  store with \<^verbatim>\<open>Object.prototype\<close>, further on, does.
\<close>

datatype 'a outcome = Returns 'a | Throws js_error | Outside

record merge_state =
  store_m :: store
  libmap_m :: libmap
  newlibraries :: "addr list"

text \<open>
  The callback of \<^verbatim>\<open>libraries.forEach\<close>: a fresh object with the fields of the
  default, entered in \<^verbatim>\<open>libmap\<close> under its name when it has one, and pushed.
\<close>

definition copy_library :: "merge_state \<Rightarrow> addr \<Rightarrow> merge_state outcome" where
  "copy_library st a =
     (let library = store_m st ! a;
          newlibrary = length (store_m st);
          st' = st\<lparr>store_m := store_m st @ [library],
                   newlibraries := newlibraries st @ [newlibrary]\<rparr>
      in case truthy_name library of
           None \<Rightarrow> Returns st'
         | Some k \<Rightarrow>
             if k = ''__proto__'' then Outside
             else Returns (st'\<lparr>libmap_m := (k, newlibrary) # libmap_m st\<rparr>))"

fun forEach_library :: "merge_state \<Rightarrow> addr list \<Rightarrow> merge_state outcome" where
  "forEach_library st [] = Returns st"
| "forEach_library st (a # rest) =
     (case copy_library st a of
        Returns st' \<Rightarrow> forEach_library st' rest
      | Throws e \<Rightarrow> Throws e
      | Outside \<Rightarrow> Outside)"

text \<open>
  \<^verbatim>\<open>for (var n in config) target[n] = config[n]\<close> on descriptors: every field the
  override has replaces the field of the target, and the other fields stay.
\<close>

definition field_over :: "'a option \<Rightarrow> 'a option \<Rightarrow> 'a option" where
  "field_over new old = (case new of None \<Rightarrow> old | Some x \<Rightarrow> Some x)"

definition overlay :: "library \<Rightarrow> library \<Rightarrow> library" where
  "overlay target config =
     \<lparr>name = field_over (name config) (name target),
      minVersion = field_over (minVersion config) (minVersion target),
      patchOptional = field_over (patchOptional config) (patchOptional target),
      bannedVersions = field_over (bannedVersions config) (bannedVersions target),
      skip = field_over (skip config) (skip target),
      match = field_over (match config) (match target),
      check = field_over (check config) (check target)\<rparr>"

text \<open>
  The callback of \<^verbatim>\<open>libconfig.forEach\<close>. The file is in strict mode, and there the
  assignment to the \<^verbatim>\<open>name\<close> of a function throws a TypeError: that is what the copying
  loop runs into when \<^verbatim>\<open>libmap[config.name]\<close> is a function of \<^verbatim>\<open>Object.prototype\<close>,
  since \<^verbatim>\<open>name\<close> is one of the fields of \<^verbatim>\<open>config\<close>. What the loop has written into that
  function before is no field of a descriptor.
\<close>

definition merge_entry :: "merge_state \<Rightarrow> addr \<Rightarrow> merge_state outcome" where
  "merge_entry st c =
     (let config = store_m st ! c
      in case truthy_name config of
           None \<Rightarrow> Returns st
         | Some k \<Rightarrow>
             (case libmap_get (libmap_m st) k of
                Absent \<Rightarrow>
                  Returns
                    \<lparr>store_m = (store_m st)[c := config\<lparr>check := Some defaultCheck\<rparr>],
                     libmap_m = (k, c) # libmap_m st,
                     newlibraries = newlibraries st @ [c]\<rparr>
              | Own t \<Rightarrow>
                  Returns (st\<lparr>store_m := (store_m st)[t := overlay (store_m st ! t) config]\<rparr>)
              | Inherited_function \<Rightarrow> Throws TypeError
              | Object_prototype \<Rightarrow> Outside))"

text \<open>The loop stops where a callback does not return; what was written stays written.\<close>

fun forEach_config :: "merge_state \<Rightarrow> addr list \<Rightarrow> merge_state \<times> unit outcome" where
  "forEach_config st [] = (st, Returns ())"
| "forEach_config st (c # rest) =
     (case merge_entry st c of
        Returns st' \<Rightarrow> forEach_config st' rest
      | Throws e \<Rightarrow> (st, Throws e)
      | Outside \<Rightarrow> (st, Outside))"

definition mergeConfig :: "store \<Rightarrow> addr list \<Rightarrow> addr list \<Rightarrow> store \<times> addr list outcome" where
  "mergeConfig h libraries libconfig =
     (case forEach_library \<lparr>store_m = h, libmap_m = [], newlibraries = []\<rparr> libraries of
        Returns st \<Rightarrow>
          (case forEach_config st libconfig of
             (st', Returns u) \<Rightarrow> (store_m st', Returns (newlibraries st'))
           | (st', Throws e) \<Rightarrow> (store_m st', Throws e)
           | (st', Outside) \<Rightarrow> (store_m st', Outside))
      | Throws e \<Rightarrow> (h, Throws e)
      | Outside \<Rightarrow> (h, Outside))"

section \<open>mergeConfig with Object.prototype in the store\<close>

text \<open>
  An override named \<^verbatim>\<open>__proto__\<close> is not outside the language: \<^verbatim>\<open>libmap[config.name]\<close>
  is \<^verbatim>\<open>Object.prototype\<close> then, the copying loop writes the fields of the override into
  it, and every object inherits them from there on. To follow the module through
  that, the store is given one more object: \<open>inherited\<close> holds the fields that have
  been written into \<^verbatim>\<open>Object.prototype\<close>. A property read, and a \<^verbatim>\<open>for\<close>-\<^verbatim>\<open>in\<close> loop, sees an
  object \<open>through\<close> it: the fields the object has, and for the others what it inherits.
\<close>

definition no_fields :: library where
  "no_fields =
     \<lparr>name = None, minVersion = None, patchOptional = None, bannedVersions = None,
      skip = None, match = None, check = None\<rparr>"

definition through :: "library \<Rightarrow> library \<Rightarrow> library" where
  "through inherited l = overlay inherited l"

text \<open>
  The state of \<^verbatim>\<open>mergeConfig\<close> in this store. \<open>parent_p\<close> is the prototype of \<^verbatim>\<open>libmap\<close>
  when it is no longer \<^verbatim>\<open>Object.prototype\<close>: the assignment \<^verbatim>\<open>libmap[library.name] =
  newlibrary\<close> for a default that reads as named \<^verbatim>\<open>__proto__\<close> gives \<^verbatim>\<open>libmap\<close> no
  property, it makes \<^verbatim>\<open>newlibrary\<close> its prototype.
\<close>

record merge_state_p =
  store_p :: store
  inherited_p :: library
  libmap_p :: libmap
  parent_p :: "addr option"
  newlibraries_p :: "addr list"

text \<open>
  What \<^verbatim>\<open>libmap[k]\<close> is, as far as the callback of \<^verbatim>\<open>libconfig.forEach\<close> can tell: nothing
  or a falsy value; a descriptor of the store; \<^verbatim>\<open>Object.prototype\<close>; a function; a truthy
  string or \<^verbatim>\<open>true\<close>; or another object, which is the \<^verbatim>\<open>minVersion\<close> or the
  \<^verbatim>\<open>bannedVersions\<close> of an override. The last four are inherited values.
\<close>

datatype found = Nothing | Descriptor addr | The_prototype | Function_object | Primitive
  | Plain_object

definition inherited_value :: "library \<Rightarrow> string \<Rightarrow> found" where
  "inherited_value l k =
     (if k = ''name'' then
        (case name l of None \<Rightarrow> Nothing | Some v \<Rightarrow> if v = [] then Nothing else Primitive)
      else if k = ''minVersion'' then
        (case minVersion l of None \<Rightarrow> Nothing | Some v \<Rightarrow> Plain_object)
      else if k = ''patchOptional'' then
        (if patchOptional l = Some True then Primitive else Nothing)
      else if k = ''bannedVersions'' then
        (case bannedVersions l of None \<Rightarrow> Nothing | Some v \<Rightarrow> Plain_object)
      else if k = ''skip'' then
        (if skip l = Some True then Primitive else Nothing)
      else if k = ''match'' then
        (case match l of None \<Rightarrow> Nothing | Some v \<Rightarrow> if v = [] then Nothing else Primitive)
      else if k = ''check'' then
        (case check l of None \<Rightarrow> Nothing | Some v \<Rightarrow> Function_object)
      else Nothing)"

definition libmap_find :: "merge_state_p \<Rightarrow> string \<Rightarrow> found" where
  "libmap_find st k =
     (case map_of (libmap_p st) k of
        Some a \<Rightarrow> Descriptor a
      | None \<Rightarrow>
          if k = ''__proto__'' then
            (case parent_p st of None \<Rightarrow> The_prototype | Some p \<Rightarrow> Descriptor p)
          else if k \<in> set Object_prototype_functions then Function_object
          else
            inherited_value
              (case parent_p st of
                 None \<Rightarrow> inherited_p st
               | Some p \<Rightarrow> through (inherited_p st) (store_p st ! p))
              k)"

text \<open>
  The callback of \<^verbatim>\<open>libraries.forEach\<close>. The \<^verbatim>\<open>for\<close>-\<^verbatim>\<open>in\<close> loop copies what the default
  inherits too.
\<close>

definition copy_library_p :: "merge_state_p \<Rightarrow> addr \<Rightarrow> merge_state_p" where
  "copy_library_p st a =
     (let library = through (inherited_p st) (store_p st ! a);
          newlibrary = length (store_p st);
          st' = st\<lparr>store_p := store_p st @ [library],
                   newlibraries_p := newlibraries_p st @ [newlibrary]\<rparr>
      in case truthy_name library of
           None \<Rightarrow> st'
         | Some k \<Rightarrow>
             if k = ''__proto__'' then st'\<lparr>parent_p := Some newlibrary\<rparr>
             else st'\<lparr>libmap_p := (k, newlibrary) # libmap_p st\<rparr>)"

definition forEach_library_p :: "merge_state_p \<Rightarrow> addr list \<Rightarrow> merge_state_p" where
  "forEach_library_p st libraries = foldl copy_library_p st libraries"

text \<open>
  The callback of \<^verbatim>\<open>libconfig.forEach\<close>. In strict mode the assignment of a property to
  a string or a boolean throws a TypeError, and so does the assignment to the \<^verbatim>\<open>name\<close>
  of a function; the loop has a property to assign, since \<^verbatim>\<open>config.name\<close> is truthy.
  What it writes into the \<^verbatim>\<open>minVersion\<close> or the \<^verbatim>\<open>bannedVersions\<close> of an override is
  neither \<^verbatim>\<open>major\<close> nor \<^verbatim>\<open>minor\<close> nor an element.
\<close>

definition merge_entry_p :: "merge_state_p \<Rightarrow> addr \<Rightarrow> js_error + merge_state_p" where
  "merge_entry_p st c =
     (let config = through (inherited_p st) (store_p st ! c)
      in case truthy_name config of
           None \<Rightarrow> Inr st
         | Some k \<Rightarrow>
             (case libmap_find st k of
                Nothing \<Rightarrow>
                  Inr (st\<lparr>store_p :=
                             (store_p st)[c := (store_p st ! c)\<lparr>check := Some defaultCheck\<rparr>],
                           libmap_p := (k, c) # libmap_p st,
                           newlibraries_p := newlibraries_p st @ [c]\<rparr>)
              | Descriptor t \<Rightarrow>
                  Inr (st\<lparr>store_p := (store_p st)[t := overlay (store_p st ! t) config]\<rparr>)
              | The_prototype \<Rightarrow>
                  Inr (st\<lparr>inherited_p := overlay (inherited_p st) config\<rparr>)
              | Function_object \<Rightarrow> Inl TypeError
              | Primitive \<Rightarrow> Inl TypeError
              | Plain_object \<Rightarrow> Inr st))"

text \<open>The loop stops where a callback throws; what was written stays written.\<close>

fun forEach_config_p :: "merge_state_p \<Rightarrow> addr list \<Rightarrow> merge_state_p \<times> js_error option" where
  "forEach_config_p st [] = (st, None)"
| "forEach_config_p st (c # rest) =
     (case merge_entry_p st c of
        Inr st' \<Rightarrow> forEach_config_p st' rest
      | Inl e \<Rightarrow> (st, Some e))"

definition mergeConfig_p ::
  "store \<times> library \<Rightarrow> addr list \<Rightarrow> addr list \<Rightarrow> (store \<times> library) \<times> (js_error + addr list)" where
  "mergeConfig_p h libraries libconfig =
     (case forEach_config_p
             (forEach_library_p
                \<lparr>store_p = fst h, inherited_p = snd h, libmap_p = [], parent_p = None,
                 newlibraries_p = []\<rparr> libraries)
             libconfig of
        (st, None) \<Rightarrow> ((store_p st, inherited_p st), Inr (newlibraries_p st))
      | (st, Some e) \<Rightarrow> ((store_p st, inherited_p st), Inl e))"

text \<open>
  A state of \<^verbatim>\<open>mergeConfig\<close> in the store of descriptors alone, taken into this store:
  \<^verbatim>\<open>Object.prototype\<close> has been given nothing.
\<close>

definition with_prototype :: "merge_state \<Rightarrow> merge_state_p" where
  "with_prototype st =
     \<lparr>store_p = store_m st, inherited_p = no_fields, libmap_p = libmap_m st,
      parent_p = None, newlibraries_p = newlibraries st\<rparr>"

section \<open>merge\<close>

text \<open>
  The module: the store with what \<^verbatim>\<open>Object.prototype\<close> has been given, and the variable
  \<^verbatim>\<open>libraries\<close> (\<open>libraries_g\<close>). The built-in descriptors are the first sixteen objects,
  and \<^verbatim>\<open>original_libraries\<close> is the array of them.
\<close>

record module_state =
  store_g :: store
  inherited_g :: library
  libraries_g :: "addr list"

definition original_libraries :: "addr list" where
  "original_libraries = [0..<16]"

definition initial_state :: module_state where
  "initial_state =
     \<lparr>store_g = builtin_libraries, inherited_g = no_fields,
      libraries_g = original_libraries\<rparr>"

text \<open>
  \<^verbatim>\<open>module.exports.merge\<close>: an array is truthy, \<open>None\<close> is a call with no argument. When
  \<^verbatim>\<open>mergeConfig\<close> throws, the assignment to \<^verbatim>\<open>libraries\<close> does not happen.
\<close>

definition merge ::
  "addr list option \<Rightarrow> module_state \<Rightarrow> module_state \<times> (js_error + addr list)" where
  "merge config s =
     (case config of
        Some cfg \<Rightarrow>
          (case mergeConfig_p (store_g s, inherited_g s) original_libraries cfg of
             ((h, i), Inr ls) \<Rightarrow> (\<lparr>store_g = h, inherited_g = i, libraries_g = ls\<rparr>, Inr ls)
           | ((h, i), Inl e) \<Rightarrow> (s\<lparr>store_g := h, inherited_g := i\<rparr>, Inl e))
      | None \<Rightarrow> (s\<lparr>libraries_g := original_libraries\<rparr>, Inr original_libraries))"

text \<open>
  What a caller does between merges: it makes an object for an override, and it calls
  \<^verbatim>\<open>merge\<close>, with an array of objects that exist or with no argument. A run is \<open>None\<close>
  only when a call names an address that holds no object, which no program does.
\<close>

datatype merge_op = New library | Merge "addr list option"

fun run :: "merge_op list \<Rightarrow> module_state \<Rightarrow> module_state option" where
  "run [] s = Some s"
| "run (New l # ops) s = run ops (s\<lparr>store_g := store_g s @ [l]\<rparr>)"
| "run (Merge config # ops) s =
     (if (case config of None \<Rightarrow> False | Some cfg \<Rightarrow> list_ex (\<lambda>a. length (store_g s) \<le> a) cfg)
      then None
      else run ops (fst (merge config s)))"

text \<open>
  The same condition on the calls alone: \<open>n\<close> is the number of objects in the store,
  which a merge with an argument raises by the sixteen copies it makes.
\<close>

fun existing :: "nat \<Rightarrow> merge_op list \<Rightarrow> bool" where
  "existing n [] = True"
| "existing n (New l # ops) = existing (Suc n) ops"
| "existing n (Merge None # ops) = existing n ops"
| "existing n (Merge (Some cfg) # ops) = (list_all (\<lambda>a. a < n) cfg \<and> existing (n + 16) ops)"

text \<open>
  The active registry as the analyzer reads it: \<^verbatim>\<open>libraries[i].skip\<close> and the other
  reads of \<^verbatim>\<open>checkScript\<close>, \<^verbatim>\<open>checkVersion\<close> and the check functions are property reads.
\<close>

definition registry :: "module_state \<Rightarrow> library list" where
  "registry s = map (\<lambda>a. through (inherited_g s) (store_g s ! a)) (libraries_g s)"

text \<open>An override named \<^verbatim>\<open>__proto__\<close>: \<^verbatim>\<open>{name: "__proto__", skip: true}\<close>.\<close>

definition proto_skip :: library where
  "proto_skip =
     \<lparr>name = Some ''__proto__'', minVersion = None, patchOptional = None,
      bannedVersions = None, skip = Some True, match = None, check = None\<rparr>"

section \<open>The merge in the specification's words\<close>

text \<open>
  The merge in the specification's words, on the descriptors themselves: an override
  without a name is ignored; one whose name no descriptor of the list bears is put at
  the end, with the generic rule as its \<^verbatim>\<open>check\<close>; one whose name a descriptor bears is
  laid over that descriptor.
\<close>

definition spec_step :: "library list \<Rightarrow> library \<Rightarrow> library list" where
  "spec_step ls c =
     (case truthy_name c of
        None \<Rightarrow> ls
      | Some k \<Rightarrow>
          if list_ex (\<lambda>l. truthy_name l = Some k) ls
          then map (\<lambda>l. if truthy_name l = Some k then overlay l c else l) ls
          else ls @ [c\<lparr>check := Some defaultCheck\<rparr>])"

definition spec_merge :: "library list \<Rightarrow> library list \<Rightarrow> library list" where
  "spec_merge defaults overrides = foldl spec_step defaults overrides"

text \<open>
  The names an override must not bear for the store to tell the whole story: the
  members of \<^verbatim>\<open>Object.prototype\<close>.
\<close>

definition inherited_key :: "string \<Rightarrow> bool" where
  "inherited_key k = (k = ''__proto__'' \<or> k \<in> set Object_prototype_functions)"

section \<open>Invariants of the merge\<close>

text \<open>
  Two facts that hold while \<^verbatim>\<open>mergeConfig\<close> runs from a store \<open>h\<close> with the defaults
  \<open>D\<close>: the defaults still have their fields and \<^verbatim>\<open>libmap\<close> leads to none of them; and
  every default with a name is known to \<^verbatim>\<open>libmap\<close> under that name.
\<close>

definition defaults_kept :: "store \<Rightarrow> addr set \<Rightarrow> merge_state \<Rightarrow> bool" where
  "defaults_kept h D st =
     ((\<forall>d \<in> D. d < length (store_m st) \<and> store_m st ! d = h ! d)
      \<and> (\<forall>k a. map_of (libmap_m st) k = Some a \<longrightarrow> a \<notin> D))"

definition defaults_known :: "store \<Rightarrow> addr set \<Rightarrow> merge_state \<Rightarrow> bool" where
  "defaults_known h D st =
     (\<forall>d \<in> D. \<forall>k. truthy_name (h ! d) = Some k \<longrightarrow> map_of (libmap_m st) k \<noteq> None)"

text \<open>
  The same two facts in the store with \<^verbatim>\<open>Object.prototype\<close>, where the prototype of
  \<^verbatim>\<open>libmap\<close> is no default either.
\<close>

definition defaults_kept_p :: "store \<Rightarrow> addr set \<Rightarrow> merge_state_p \<Rightarrow> bool" where
  "defaults_kept_p h D st =
     ((\<forall>d \<in> D. d < length (store_p st) \<and> store_p st ! d = h ! d)
      \<and> (\<forall>k a. map_of (libmap_p st) k = Some a \<longrightarrow> a \<notin> D)
      \<and> (\<forall>p. parent_p st = Some p \<longrightarrow> p \<notin> D))"

definition defaults_known_p :: "store \<Rightarrow> addr set \<Rightarrow> merge_state_p \<Rightarrow> bool" where
  "defaults_known_p h D st =
     (\<forall>d \<in> D. \<exists>k. name (h ! d) = Some k \<and> k \<noteq> [] \<and> k \<noteq> ''__proto__''
        \<and> map_of (libmap_p st) k \<noteq> None)"

text \<open>The built-in descriptors are where they were, with the fields they had.\<close>

definition originals_kept :: "module_state \<Rightarrow> bool" where
  "originals_kept s =
     (\<forall>d \<in> set original_libraries.
        d < length (store_g s) \<and> store_g s ! d = builtin_libraries ! d)"

text \<open>
  Nothing has been written into \<^verbatim>\<open>Object.prototype\<close>, and no object is named
  \<^verbatim>\<open>__proto__\<close>.
\<close>

definition unnamed_proto :: "library \<Rightarrow> bool" where
  "unnamed_proto l = (name l \<noteq> Some ''__proto__'')"

definition clean_p :: "merge_state_p \<Rightarrow> bool" where
  "clean_p st =
     (inherited_p st = no_fields \<and> parent_p st = None \<and> list_all unnamed_proto (store_p st))"

definition clean :: "module_state \<Rightarrow> bool" where
  "clean s = (inherited_g s = no_fields \<and> list_all unnamed_proto (store_g s))"

fun new_names :: "merge_op list \<Rightarrow> string option list" where
  "new_names [] = []"
| "new_names (New l # ops) = name l # new_names ops"
| "new_names (Merge config # ops) = new_names ops"

text \<open>
  How a state of \<^verbatim>\<open>mergeConfig\<close> stands for a list \<open>ls\<close> of descriptors: the new array
  holds distinct objects whose fields are \<open>ls\<close>, \<^verbatim>\<open>libmap\<close> knows exactly the named ones
  among them, and the overrides \<open>cs\<close> that are still to come are untouched and not in
  the array.
\<close>

definition names_of :: "library list \<Rightarrow> string list" where
  "names_of ls = List.map_filter truthy_name ls"

definition merged_as :: "store \<Rightarrow> addr list \<Rightarrow> merge_state \<Rightarrow> library list \<Rightarrow> bool" where
  "merged_as h cs st ls =
     (map (\<lambda>a. store_m st ! a) (newlibraries st) = ls
      \<and> distinct (newlibraries st)
      \<and> (\<forall>a \<in> set (newlibraries st). a < length (store_m st))
      \<and> (\<forall>k a. map_of (libmap_m st) k = Some a \<longleftrightarrow>
            a \<in> set (newlibraries st) \<and> truthy_name (store_m st ! a) = Some k)
      \<and> (\<forall>c \<in> set cs. c < length (store_m st) \<and> store_m st ! c = h ! c
            \<and> c \<notin> set (newlibraries st)))"

text \<open>An override for the examples, and a second one of the same name.\<close>

definition my_lib :: library where
  "my_lib =
     \<lparr>name = Some ''MyLib'', minVersion = Some \<lparr>major = ''2.'', minor = ''0''\<rparr>,
      patchOptional = None, bannedVersions = None, skip = None,
      match = Some ''MyLib v([0-9.]+)'', check = None\<rparr>"

definition my_lib_again :: library where
  "my_lib_again =
     \<lparr>name = Some ''MyLib'', minVersion = None, patchOptional = None,
      bannedVersions = None, skip = Some True, match = None, check = None\<rparr>"

chapter \<open>The markup analyzer\<close>

section \<open>Configuration and collaborators\<close>

text \<open>
  The module reads four settings of \<^verbatim>\<open>config.js\<close>, which is a parameter here. A
  threshold is a Number; an element entry may have none.
\<close>

record elementConfig =
  name_e :: string
  threshold_e :: "jsnum option"

record markup_config =
  user_agent_chrome :: string
  check_markup_exclude_list :: "string list"
  check_markup_elements :: "elementConfig list"
  check_markup_default_threshold :: jsnum

text \<open>
  The libraries the module calls are parameters too. Of \<^verbatim>\<open>cheerio\<close>, with documents of
  a type \<open>'d\<close> and elements of a type \<open>'e\<close>: \<open>load markup\<close> is
  \<^verbatim>\<open>cheerio.load(markup, {...})\<close> with the options of the module, \<open>select $ selector\<close>
  is \<^verbatim>\<open>$(selector)\<close>, the elements of the document that the selector matches, and
  \<open>css el property\<close> is \<^verbatim>\<open>$(el).css(property)\<close>, the value the element's style gives
  the property, \<open>None\<close> for \<^verbatim>\<open>undefined\<close>. \<open>gunzip\<close> and \<open>inflateRaw\<close> are the two
  functions of \<^verbatim>\<open>zlib\<close>, with the error or the data they call back with. \<open>toString data cs\<close> is
  \<^verbatim>\<open>data.toString(cs)\<close> of a Buffer. \<^verbatim>\<open>charset\<close> is a free identifier of the module,
  which neither declares nor assigns it: \<open>charset\<close> is the value the global object
  binds it to, if it does.
\<close>

type_synonym bytes = "nat list"

text \<open>
  The body that the transport hands over. The module sets \<^verbatim>\<open>encoding: null\<close>, so a
  body is a Buffer, of any length; \<open>NoBody\<close> is a falsy value in its place
  (\<^verbatim>\<open>undefined\<close>, or the empty string).
\<close>

datatype jsbody = Buffer bytes | NoBody

record ('d, 'e) collaborators =
  load :: "string \<Rightarrow> 'd"
  select :: "'d \<Rightarrow> string \<Rightarrow> 'e list"
  css :: "'e \<Rightarrow> string \<Rightarrow> string option"
  gunzip :: "jsbody \<Rightarrow> string + bytes"
  inflateRaw :: "jsbody \<Rightarrow> string + bytes"
  toString :: "bytes \<Rightarrow> string \<Rightarrow> string"
  charset :: "string option"

section \<open>countElements\<close>

text \<open>
  The elements that the selector matches, less those the filter drops: an element
  stays when its \<^verbatim>\<open>display\<close> is not \<^verbatim>\<open>none\<close> and its \<^verbatim>\<open>visibility\<close> is not \<^verbatim>\<open>hidden\<close>.
\<close>

definition countElements :: "('d, 'e) collaborators \<Rightarrow> 'd \<Rightarrow> string \<Rightarrow> nat" where
  "countElements env dollar elementName =
     length
       (filter (\<lambda>el. css env el ''display'' \<noteq> Some ''none'' \<and>
                     css env el ''visibility'' \<noteq> Some ''hidden'')
          (select env dollar elementName))"

section \<open>compareMarkup\<close>

text \<open>\<^verbatim>\<open>x || y\<close> on Numbers takes \<open>y\<close> when \<open>x\<close> is 0 or NaN; \<^verbatim>\<open>x >= y\<close> is false on NaN.\<close>

definition truthy_num :: "jsnum \<Rightarrow> bool" where
  "truthy_num x = (x \<noteq> NaN \<and> x \<noteq> Fin 0)"

definition js_ge :: "jsnum \<Rightarrow> jsnum \<Rightarrow> bool" where
  "js_ge x y = (x \<noteq> NaN \<and> y \<noteq> NaN \<and> (x = y \<or> js_gt x y))"

text \<open>
  \<^verbatim>\<open>Math.min(edgeCount, chromeCount) / maxCount\<close> for a positive \<^verbatim>\<open>maxCount\<close>: the
  quotient of the two counts, rounded to binary64.
\<close>

definition count_ratio :: "nat \<Rightarrow> nat \<Rightarrow> jsnum" where
  "count_ratio edgeCount chromeCount =
     round_double (of_nat (min edgeCount chromeCount) / of_nat (max edgeCount chromeCount))"

record elementResult =
  element :: string
  threshold_r :: jsnum
  edgeCount_r :: nat
  chromeCount_r :: nat
  passed_r :: bool

record compareResults =
  passed_c :: bool
  results_c :: "elementResult list"

definition elementThreshold :: "markup_config \<Rightarrow> elementConfig \<Rightarrow> jsnum" where
  "elementThreshold config elementConfig =
     (case threshold_e elementConfig of
        None \<Rightarrow> check_markup_default_threshold config
      | Some t \<Rightarrow> if truthy_num t then t else check_markup_default_threshold config)"

text \<open>
  The body of the \<^verbatim>\<open>for\<close> loop of \<^verbatim>\<open>compareMarkup\<close> for one element entry, on the two
  documents \<^verbatim>\<open>$edge\<close> and \<^verbatim>\<open>$chrome\<close>, and the loop from the entries still to visit, with
  \<^verbatim>\<open>passed\<close> and \<^verbatim>\<open>elementResults\<close> as they stand.
\<close>

definition compare_element ::
  "markup_config \<Rightarrow> ('d, 'e) collaborators \<Rightarrow> 'd \<Rightarrow> 'd \<Rightarrow> elementConfig \<Rightarrow> elementResult" where
  "compare_element config env edge chrome elementConfig =
     (let elementName = name_e elementConfig;
          edgeCount = countElements env edge elementName;
          chromeCount = countElements env chrome elementName;
          maxCount = max edgeCount chromeCount
      in \<lparr>element = elementName,
          threshold_r = elementThreshold config elementConfig,
          edgeCount_r = edgeCount,
          chromeCount_r = chromeCount,
          passed_r =
            (if maxCount \<le> 0 then True
             else js_ge (count_ratio edgeCount chromeCount)
                    (elementThreshold config elementConfig))\<rparr>)"

fun compareMarkup_loop ::
  "markup_config \<Rightarrow> ('d, 'e) collaborators \<Rightarrow> 'd \<Rightarrow> 'd \<Rightarrow> elementConfig list \<Rightarrow>
   bool \<Rightarrow> elementResult list \<Rightarrow> compareResults" where
  "compareMarkup_loop config env edge chrome [] passed elementResults =
     \<lparr>passed_c = passed, results_c = elementResults\<rparr>"
| "compareMarkup_loop config env edge chrome (elementConfig # rest) passed elementResults =
     (let elementResult = compare_element config env edge chrome elementConfig
      in compareMarkup_loop config env edge chrome rest
           (passed \<and> passed_r elementResult) (elementResults @ [elementResult]))"

definition compareMarkup ::
  "markup_config \<Rightarrow> ('d, 'e) collaborators \<Rightarrow> string \<Rightarrow> string \<Rightarrow> compareResults" where
  "compareMarkup config env markup1 markup2 =
     (let edge = load env markup1;
          chrome = load env markup2
      in compareMarkup_loop config env edge chrome (check_markup_elements config) True [])"

section \<open>decompress and getBody\<close>

text \<open>
  How a promise ends: resolved, rejected with a reason, or never settled, when the
  callback that was to settle it throws. A reason is the error object of a request
  or a text.
\<close>

datatype reason = RequestError string | Text string

datatype 'a promise = Resolved 'a | Rejected reason | Unsettled

record body_text =
  body_b :: string
  compression :: string

text \<open>The header is \<^verbatim>\<open>response.headers['content-encoding']\<close>.\<close>

record response =
  content_encoding :: "string option"

text \<open>
  \<^verbatim>\<open>deferred.resolve({body: data.toString(charset), compression: c})\<close>: reading an
  unbound \<^verbatim>\<open>charset\<close> throws a ReferenceError inside the callback.
\<close>

definition resolve_text :: "('d, 'e) collaborators \<Rightarrow> bytes \<Rightarrow> string \<Rightarrow> body_text promise" where
  "resolve_text env data c =
     (case charset env of
        None \<Rightarrow> Unsettled
      | Some cs \<Rightarrow> Resolved \<lparr>body_b = toString env data cs, compression = c\<rparr>)"

definition decompress :: "('d, 'e) collaborators \<Rightarrow> jsbody \<Rightarrow> string \<Rightarrow> body_text promise" where
  "decompress env body type =
     (if type = ''gzip'' then
        (case gunzip env body of
           Inr data \<Rightarrow> resolve_text env data ''gzip''
         | Inl err \<Rightarrow> Rejected (Text (''Error found: can't gunzip content '' @ err)))
      else if type = ''deflate'' then
        (case inflateRaw env body of
           Inr data \<Rightarrow> resolve_text env data ''deflate''
         | Inl err \<Rightarrow> Rejected (Text (''Error found: can't deflate content'' @ err)))
      else Rejected (Text (''Unknown content encoding: '' @ type)))"

text \<open>
  \<^verbatim>\<open>if (body)\<close> is a test of truthiness, and every Buffer is truthy, the one of
  length zero too. So is the test of the header, which the empty string fails.
\<close>

definition getBody :: "('d, 'e) collaborators \<Rightarrow> response \<Rightarrow> jsbody \<Rightarrow> body_text promise" where
  "getBody env response body =
     (case content_encoding response of
        Some type \<Rightarrow>
          if type \<noteq> [] then decompress env body type
          else
            (case body of
               Buffer bs \<Rightarrow> resolve_text env bs ''none''
             | NoBody \<Rightarrow> Rejected (Text ''Error found: Empty body''))
      | None \<Rightarrow>
          (case body of
             Buffer bs \<Rightarrow> resolve_text env bs ''none''
           | NoBody \<Rightarrow> Rejected (Text ''Error found: Empty body'')))"

section \<open>check\<close>

definition isExcluded :: "markup_config \<Rightarrow> string \<Rightarrow> bool" where
  "isExcluded config siteUrl =
     list_ex (\<lambda>x. - 1 < indexOf_js siteUrl x) (check_markup_exclude_list config)"

text \<open>
  A request as the module's \<^verbatim>\<open>request\<close> sends it: the URL, and the \<^verbatim>\<open>User-Agent\<close> of
  the defaults it was made with. The transport is a parameter: what the \<open>n\<close>-th call
  answers, an error or a response with its body.
\<close>

record http_request =
  url_q :: string
  user_agent_q :: string

type_synonym transport = "nat \<Rightarrow> http_request \<Rightarrow> string + response \<times> jsbody"

datatype markup_data = ElementResults "elementResult list" | Message string

record test_markup =
  testName_m :: string
  passed_m :: bool
  excluded_m :: "bool option"
  transient_m :: "bool option"
  data_m :: markup_data

definition excluded_message :: string where
  "excluded_message =
     ''The site was excluded for this test. See the 'check_markup_exclude_list' setting.''"

definition transient_message :: string where
  "transient_message =
     ''Site candidate for exclude list. The HTML markup for this site presents differences on each request regardless of the user agent.''"

text \<open>
  \<^verbatim>\<open>check(website)\<close> of the markup analyzer: how its promise ends, and the requests it
  has sent, in order.
\<close>

definition check_markup ::
  "markup_config \<Rightarrow> ('d, 'e) collaborators \<Rightarrow> transport \<Rightarrow> website \<Rightarrow>
   test_markup promise \<times> http_request list" where
  "check_markup config env request website =
     (if isExcluded config (originalUrl_w website) then
        (Resolved \<lparr>testName_m = ''markup'', passed_m = True, excluded_m = Some True,
                   transient_m = None, data_m = Message excluded_message\<rparr>, [])
      else
        (let req = \<lparr>url_q = href_w website, user_agent_q = user_agent_chrome config\<rparr>
         in case request 0 req of
              Inl err \<Rightarrow> (Rejected (RequestError err), [req])
            | Inr (response, body) \<Rightarrow>
                (case getBody env response body of
                   Rejected e \<Rightarrow> (Rejected e, [req])
                 | Unsettled \<Rightarrow> (Unsettled, [req])
                 | Resolved r \<Rightarrow>
                     (let edgeMarkup = content_w website;
                          chromeMarkup = body_b r;
                          compareResults = compareMarkup config env edgeMarkup chromeMarkup
                      in if passed_c compareResults then
                           (Resolved \<lparr>testName_m = ''markup'',
                                      passed_m = passed_c compareResults,
                                      excluded_m = None, transient_m = None,
                                      data_m = ElementResults (results_c compareResults)\<rparr>,
                            [req])
                         else
                           (case request 1 req of
                              Inl err2 \<Rightarrow> (Rejected (RequestError err2), [req, req])
                            | Inr (response2, body2) \<Rightarrow>
                                (case getBody env response2 body2 of
                                   Rejected e \<Rightarrow> (Rejected e, [req, req])
                                 | Unsettled \<Rightarrow> (Unsettled, [req, req])
                                 | Resolved r2 \<Rightarrow>
                                     (let chromeMarkup2 = body_b r2;
                                          compareResults2 =
                                            compareMarkup config env chromeMarkup chromeMarkup2
                                      in (Resolved
                                            \<lparr>testName_m = ''markup'',
                                             passed_m = (\<not> passed_c compareResults2),
                                             excluded_m = None,
                                             transient_m = Some (\<not> passed_c compareResults2),
                                             data_m =
                                               (if passed_c compareResults2
                                                then ElementResults (results_c compareResults)
                                                else Message transient_message)\<rparr>,
                                          [req, req]))))))))"

text \<open>
  Collaborators for the examples. The markup of the examples is made of elements
  written \<^verbatim>\<open><tag></tag>\<close> or \<^verbatim>\<open><tag style=property:value></tag>\<close>, and for such markup the
  parser is simple: an element is its tag and the declarations of its style, the
  document is the list of the elements, a selector is a tag, and \<open>css\<close> looks the
  property up among the declarations. Nothing is compressed, \<^verbatim>\<open>charset\<close> is bound, and
  a byte decodes to the character of its code.
\<close>

type_synonym example_element = "string \<times> (string \<times> string) list"

definition example_declaration :: "string \<Rightarrow> string \<times> string" where
  "example_declaration d =
     (takeWhile (\<lambda>c. c \<noteq> CHR '':'') d, drop 1 (dropWhile (\<lambda>c. c \<noteq> CHR '':'') d))"

definition example_tag :: "string \<Rightarrow> example_element" where
  "example_tag t =
     (let tag = takeWhile (\<lambda>c. c \<noteq> CHR '' '') t;
          attribute = drop (length tag + 1) t
      in (tag,
          if prefix ''style='' attribute
          then map example_declaration (split_js CHR '';'' (drop 6 attribute))
          else []))"

definition example_load :: "string \<Rightarrow> example_element list" where
  "example_load markup =
     map example_tag
       (filter (\<lambda>t. t \<noteq> [] \<and> hd t \<noteq> CHR ''/'')
          (map (takeWhile (\<lambda>c. c \<noteq> CHR ''>'')) (tl (split_js CHR ''<'' markup))))"

definition example_env :: "(example_element list, example_element) collaborators" where
  "example_env =
     \<lparr>load = example_load,
      select = (\<lambda>dollar selector. filter (\<lambda>el. fst el = selector) dollar),
      css = (\<lambda>el property. map_of (snd el) property),
      gunzip = (\<lambda>body. Inl ''Error: incorrect header check''),
      inflateRaw = (\<lambda>body. Inl ''Error: invalid stored block lengths''),
      toString = (\<lambda>data cs. map char_of data),
      charset = Some ''utf-8''\<rparr>"

definition divs :: "nat \<Rightarrow> string" where
  "divs n = concat (replicate n ''<div></div>'')"

text \<open>Elements that the filter of \<^verbatim>\<open>countElements\<close> drops, and paragraphs.\<close>

definition hidden_divs :: "nat \<Rightarrow> string" where
  "hidden_divs n = concat (replicate n ''<div style=display:none></div>'')"

definition paragraphs :: "nat \<Rightarrow> string" where
  "paragraphs n = concat (replicate n ''<p></p>'')"

definition hidden_paragraphs :: "nat \<Rightarrow> string" where
  "hidden_paragraphs n = concat (replicate n ''<p style=color:red;visibility:hidden></p>'')"

text \<open>
  A configuration of two entries: \<^verbatim>\<open>div\<close> with a threshold of its own, and \<^verbatim>\<open>p\<close> on
  the default.
\<close>

definition two_elements :: markup_config where
  "two_elements =
     \<lparr>user_agent_chrome = ''Chrome'',
      check_markup_exclude_list = [],
      check_markup_elements =
        [\<lparr>name_e = ''div'', threshold_e = Some (Fin (3 / 10))\<rparr>,
         \<lparr>name_e = ''p'', threshold_e = None\<rparr>],
      check_markup_default_threshold = Fin (1 / 2)\<rparr>"

definition example_config :: "jsnum option \<Rightarrow> markup_config" where
  "example_config t =
     \<lparr>user_agent_chrome = ''Chrome'',
      check_markup_exclude_list = [''excluded.example''],
      check_markup_elements = [\<lparr>name_e = ''div'', threshold_e = t\<rparr>],
      check_markup_default_threshold = Fin (1 / 2)\<rparr>"

text \<open>
  A transport for the examples: the site answers the module's requests with \<open>a\<close>
  elements the first time and \<open>b\<close> elements the second time, uncompressed.
\<close>

definition example_request :: "nat \<Rightarrow> nat \<Rightarrow> transport" where
  "example_request a b n req =
     (if url_q req = ''http://example.com/'' \<and> user_agent_q req = ''Chrome'' then
        Inr (\<lparr>content_encoding = None\<rparr>,
             Buffer (map of_char (divs (if n = 0 then a else b))))
      else Inl ''Error: getaddrinfo ENOTFOUND'')"

definition example_website :: website where
  "example_website =
     \<lparr>href_w = ''http://example.com/'', originalUrl_w = ''example.com'',
      content_w = divs 10, js_w = []\<rparr>"

chapter \<open>Properties\<close>

section \<open>Numbers of digit strings\<close>

lemma digit_not_space: "is_digit c \<Longrightarrow> \<not> StrWhiteSpaceChar c"
  by (auto simp: is_digit_def StrWhiteSpaceChar_def)

lemma digit_not_letter: "is_digit c \<Longrightarrow> c \<notin> set ''bBoOxX+-I''"
  by (auto simp: is_digit_def)

lemma trim_js_digits:
  assumes "p \<noteq> []" "list_all is_digit p"
  shows "trim_js p = p"
proof -
  from assms obtain c cs where p: "p = c # cs" by (cases p) auto
  with assms have "\<not> StrWhiteSpaceChar c" by (simp add: digit_not_space)
  then have 1: "dropWhile StrWhiteSpaceChar p = p" by (simp add: p)
  from assms have "rev p \<noteq> []" "list_all is_digit (rev p)" by (simp_all add: list_all_iff)
  then obtain d ds where r: "rev p = d # ds" "is_digit d" by (cases "rev p") auto
  then have "dropWhile StrWhiteSpaceChar (rev p) = rev p" by (simp add: digit_not_space)
  with 1 show ?thesis by (simp add: trim_js_def)
qed

lemma NonDecimal_digits:
  assumes "list_all is_digit p"
  shows "NonDecimalIntegerLiteral p = None"
proof (cases p)
  case Nil
  then show ?thesis by (simp add: NonDecimalIntegerLiteral_def)
next
  case (Cons z t)
  show ?thesis
  proof (cases t)
    case Nil
    with Cons show ?thesis by (simp add: NonDecimalIntegerLiteral_def)
  next
    case (Cons x ds)
    with assms \<open>p = z # t\<close> have "is_digit x" by simp
    from digit_not_letter [OF this] show ?thesis
      using Cons \<open>p = z # t\<close> by (simp add: NonDecimalIntegerLiteral_def)
  qed
qed

lemma StrUnsignedDecimalLiteral_digits:
  assumes "p \<noteq> []" "list_all is_digit p"
  shows "StrUnsignedDecimalLiteral p = round_double (of_nat (decimal_value p))"
proof -
  from assms obtain c cs where p: "p = c # cs" "is_digit c" by (cases p) auto
  from digit_not_letter [OF p(2)] have ne: "p \<noteq> ''Infinity''" using p(1) by auto
  from assms have tw: "takeWhile is_digit p = p" and dw: "dropWhile is_digit p = []"
    by (simp_all add: list_all_iff)
  show ?thesis
    unfolding StrUnsignedDecimalLiteral_def tw dw using ne assms(1) by simp
qed

lemma Number_js_digits:
  assumes "p \<noteq> []" "list_all is_digit p"
  shows "Number_js p = round_double (of_nat (decimal_value p))"
proof -
  from assms obtain c cs where p: "p = c # cs" "is_digit c" by (cases p) auto
  from digit_not_letter [OF p(2)] have "c \<noteq> CHR ''+''" "c \<noteq> CHR ''-''" by auto
  then show ?thesis
    using assms p(1)
    by (simp add: Number_js_def trim_js_digits NonDecimal_digits
        StrUnsignedDecimalLiteral_digits)
qed

lemma round_double_nat:
  assumes "n \<le> 2 ^ 53"
  shows "round_double (of_nat n) = Fin (of_nat n)"
proof -
  from assms have "(of_nat n :: rat) \<le> of_nat (2 ^ 53)" by (simp only: of_nat_le_iff)
  then show ?thesis by (simp add: round_double_def)
qed

lemma isValidPart_nat:
  assumes "n \<le> 2 ^ 53"
  shows "isValidPart (Fin (of_nat n))"
proof -
  from assms have "n < 10 ^ 21" by simp
  then have "(of_nat n :: rat) < of_nat (10 ^ 21)" by (simp only: of_nat_less_iff)
  then show ?thesis by (simp add: isValidPart_def)
qed

section \<open>The comparison loop\<close>

lemma js_eq_nat [simp]: "js_eq (nat_num x) (nat_num y) \<longleftrightarrow> x = y"
  by (simp add: js_eq_def nat_num_def)

lemma js_gt_nat [simp]: "js_gt (nat_num x) (nat_num y) \<longleftrightarrow> y < x"
  by (simp add: nat_num_def)

lemma loop_positional:
  "i \<le> length xs \<Longrightarrow> i \<le> length ys \<Longrightarrow>
   compareVersions_loop i (map nat_num xs) (map nat_num ys) =
     Fin (of_int (positional (drop i xs) (drop i ys)))"
proof (induction "length xs - i" arbitrary: i)
  case 0
  then have i: "i = length xs" by simp
  show ?case
  proof (cases "drop i ys")
    case Nil
    then have "length ys = length xs" using 0 i by simp
    then show ?thesis using i Nil by (subst compareVersions_loop.simps) simp
  next
    case (Cons y ys')
    then have "length ys \<noteq> length xs" using i by auto
    then show ?thesis using i Cons by (subst compareVersions_loop.simps) simp
  qed
next
  case (Suc n)
  then have lt: "i < length xs" by simp
  then have dx: "drop i xs = xs ! i # drop (Suc i) xs" by (simp add: Cons_nth_drop_Suc)
  show ?case
  proof (cases "length ys = i")
    case True
    then show ?thesis using lt dx by (subst compareVersions_loop.simps) simp
  next
    case False
    with Suc.prems have lty: "i < length ys" by simp
    then have dy: "drop i ys = ys ! i # drop (Suc i) ys" by (simp add: Cons_nth_drop_Suc)
    have ih: "compareVersions_loop (Suc i) (map nat_num xs) (map nat_num ys) =
        Fin (of_int (positional (drop (Suc i) xs) (drop (Suc i) ys)))"
      using Suc.hyps lt lty by (intro Suc.hyps(1)) simp_all
    show ?thesis
      using lt lty False dx dy ih
      by (subst compareVersions_loop.simps) (simp add: js_index_def)
  qed
qed

lemma positional_longer: "zs \<noteq> [] \<Longrightarrow> positional (ys @ zs) ys = 1"
  by (induction ys) (auto simp: neq_Nil_conv)

lemma positional_shorter: "zs \<noteq> [] \<Longrightarrow> positional xs (xs @ zs) = - 1"
  by (induction xs) (auto simp: neq_Nil_conv)

lemma positional_differ:
  "x \<noteq> y \<Longrightarrow> positional (p @ x # xs) (p @ y # ys) = (if y < x then 1 else - 1)"
  by (induction p) auto

lemma positional_same: "positional xs xs = 0"
  by (induction xs) auto

lemma exact_parts_numbers:
  "exact_parts a \<Longrightarrow> map Number_js (split_js CHR ''.'' a) = map nat_num (part_values a)"
  by (auto simp: exact_parts_def part_values_def wf_part_def list_all_iff
      Number_js_digits round_double_nat nat_num_def)

lemma valid_nat_nums:
  "exact_parts a \<Longrightarrow> list_all isValidPart (map nat_num (part_values a))"
  by (auto simp: exact_parts_def part_values_def list_all_iff nat_num_def isValidPart_nat)

lemma compareVersions_positional:
  assumes "exact_parts a" "exact_parts b"
  shows "compareVersions (JString a) (JString b) =
    Inr (Fin (of_int (positional (part_values a) (part_values b))))"
  using assms loop_positional [of 0 "part_values a" "part_values b"]
  by (simp add: compareVersions_def exact_parts_numbers valid_nat_nums)

lemmas eval_parts =
  exact_parts_def wf_parts_def wf_part_def part_values_def is_digit_def decimal_value_def
  digit_value_def split_js_def

section \<open>Evaluating the conversion\<close>

lemma floor_rat_numeral_div:
  "\<lfloor>numeral a / numeral b :: rat\<rfloor> = numeral a div numeral b"
  by (metis floor_divide_of_int_eq of_int_numeral)

lemmas eval_round =
  round_double_def floor_log2_def compute_bitlen pow2_def Let_def round_half_even_def
  floor_rat_numeral_div

lemmas eval_digits = Number_js_digits is_digit_def decimal_value_def digit_value_def

lemma round_double_2p53_1: "round_double 9007199254740993 = Fin 9007199254740992"
  by (simp add: eval_round)

lemma round_double_1e21: "round_double 1000000000000000000000 = Fin 1000000000000000000000"
  by (simp add: eval_round)

lemma Number_js_empty: "Number_js [] = Fin 0"
  by (simp add: Number_js_def trim_js_def)

section \<open>compareVersions on well-formed versions\<close>

text \<open>
  Claim C3, as amended. For version strings \<open>a\<close> and \<open>b\<close> whose parts are well-formed
  and denote integers of at most \<open>2^53\<close>, \<^verbatim>\<open>compareVersions(a, b)\<close> compares the parts
  positionally as integers: it is 1 when \<open>b\<close>'s parts are a proper prefix of \<open>a\<close>'s, it is
  decided by the first position where the values differ (1 if \<open>a\<close>'s is greater, -1 if
  lesser), it is -1 when \<open>a\<close>'s parts are a proper prefix of \<open>b\<close>'s, and 0 when the values
  agree throughout; so \<^verbatim>\<open>compareVersions(x, x)\<close> is 0, \<^verbatim>\<open>compareVersions("1.2", "1.2.0")\<close>
  is -1 and \<^verbatim>\<open>compareVersions("1.2.0", "1.2")\<close> is 1.
\<close>

theorem compareVersions_exact:
  assumes "exact_parts a" "exact_parts b"
  shows "((\<exists>zs. zs \<noteq> [] \<and> part_values a = part_values b @ zs) \<longrightarrow>
            compareVersions (JString a) (JString b) = Inr (Fin 1))
       \<and> (\<forall>p x y xs ys. part_values a = p @ x # xs \<and> part_values b = p @ y # ys \<and> x \<noteq> y \<longrightarrow>
            compareVersions (JString a) (JString b) = Inr (Fin (if y < x then 1 else - 1)))
       \<and> ((\<exists>zs. zs \<noteq> [] \<and> part_values b = part_values a @ zs) \<longrightarrow>
            compareVersions (JString a) (JString b) = Inr (Fin (- 1)))
       \<and> (part_values a = part_values b \<longrightarrow>
            compareVersions (JString a) (JString b) = Inr (Fin 0))
       \<and> compareVersions (JString a) (JString a) = Inr (Fin 0)
       \<and> compareVersions (JString ''1.2'') (JString ''1.2.0'') = Inr (Fin (- 1))
       \<and> compareVersions (JString ''1.2.0'') (JString ''1.2'') = Inr (Fin 1)"
proof -
  have e: "exact_parts ''1.2''" "exact_parts ''1.2.0''"
    by (simp_all add: eval_parts)
  have v: "part_values ''1.2'' = [1, 2]" "part_values ''1.2.0'' = [1, 2, 0]"
    by (simp_all add: eval_parts)
  have "compareVersions (JString ''1.2'') (JString ''1.2.0'') = Inr (Fin (- 1))"
       "compareVersions (JString ''1.2.0'') (JString ''1.2'') = Inr (Fin 1)"
    by (simp_all add: compareVersions_positional e v)
  with assms show ?thesis
    by (auto simp: compareVersions_positional positional_longer positional_shorter
      positional_differ positional_same)
qed

text \<open>The theorem at \<^verbatim>\<open>"2.0.0"\<close> and \<^verbatim>\<open>"1.9.9"\<close>, which differ at the first part.\<close>

theorem compareVersions_exact_witness:
  "exact_parts ''2.0.0'' \<and> exact_parts ''1.9.9''
   \<and> compareVersions (JString ''2.0.0'') (JString ''1.9.9'') = Inr (Fin 1)"
proof -
  have e: "exact_parts ''2.0.0''" "exact_parts ''1.9.9''"
    by (simp_all add: eval_parts)
  have v: "part_values ''2.0.0'' = [] @ 2 # [0, 0]" "part_values ''1.9.9'' = [] @ 1 # [9, 9]"
    by (simp_all add: eval_parts)
  from compareVersions_exact [OF e] have
    "\<forall>p x y xs ys. part_values ''2.0.0'' = p @ x # xs \<and> part_values ''1.9.9'' = p @ y # ys \<and> x \<noteq> y \<longrightarrow>
       compareVersions (JString ''2.0.0'') (JString ''1.9.9'') = Inr (Fin (if y < x then 1 else - 1))"
    by (rule conjunct2 [THEN conjunct1])
  from this [rule_format, of "[]" 2 "[0, 0]" 1 "[9, 9]"] v
  have "compareVersions (JString ''2.0.0'') (JString ''1.9.9'') = Inr (Fin 1)"
    by simp
  with e show ?thesis by simp
qed

text \<open>
  Claim C3 as first stated fails above \<open>2^53\<close>: the parts \<^verbatim>\<open>9007199254740993\<close> and
  \<^verbatim>\<open>9007199254740992\<close> are well-formed and differ as integers, but \<^verbatim>\<open>Number\<close> maps both
  to \<open>2^53\<close> and the comparison is 0, not 1.
\<close>

theorem compareVersions_rounds_counterexample:
  "wf_parts ''9007199254740993'' \<and> wf_parts ''9007199254740992''
   \<and> part_values ''9007199254740993'' = [9007199254740993]
   \<and> part_values ''9007199254740992'' = [9007199254740992]
   \<and> compareVersions (JString ''9007199254740993'') (JString ''9007199254740992'') = Inr (Fin 0)"
proof -
  have n1: "Number_js ''9007199254740993'' = Fin 9007199254740992"
    by (simp add: eval_digits round_double_2p53_1)
  have n2: "Number_js ''9007199254740992'' = Fin 9007199254740992"
    by (simp add: eval_digits round_double_def)
  have "compareVersions (JString ''9007199254740993'') (JString ''9007199254740992'') = Inr (Fin 0)"
    unfolding compareVersions_def
    by (simp add: split_js_def n1 n2 isValidPart_def js_index_def js_eq_def)
  then show ?thesis by (simp add: eval_parts)
qed

section \<open>compareVersions on other inputs\<close>

text \<open>
  Claim C4 says that \<^verbatim>\<open>compareVersions\<close> is NaN whenever either input is not a
  string. With a string first and the number 5 second, the guard (which tests
  \<^verbatim>\<open>version1\<close> twice) lets the call through and \<^verbatim>\<open>version2.split\<close> throws a TypeError.
\<close>

theorem compareVersions_version2_TypeError:
  "compareVersions (JString ''1'') (JNumber (Fin 5)) = Inl TypeError"
  by (simp add: compareVersions_def)

text \<open>So the result there is not the NaN that claim C4 promises.\<close>

theorem compareVersions_version2_not_NaN:
  "compareVersions (JString ''1'') (JNumber (Fin 5)) \<noteq> Inr NaN"
  using compareVersions_version2_TypeError by simp

text \<open>A first argument that is not a string does give NaN, whatever the second is.\<close>

lemma compareVersions_version1_not_string:
  "(\<And>s. v \<noteq> JString s) \<Longrightarrow> compareVersions v w = Inr NaN"
  by (cases v) (auto simp: compareVersions_def)

text \<open>
  The parts are validated after \<^verbatim>\<open>map(Number)\<close>, so the validation sees Numbers, not
  the text: the empty part of \<^verbatim>\<open>"1."\<close> does not match \<^verbatim>\<open>^\d+$\<close>, yet it converts to 0,
  which does, and the comparison goes ahead.
\<close>

lemma compareVersions_empty_part:
  "\<not> wf_parts ''1.'' \<and> compareVersions (JString ''1.'') (JString ''1'') = Inr (Fin 1)"
proof -
  have n1: "Number_js ''1'' = Fin 1"
    by (simp add: eval_digits round_double_def)
  have "compareVersions (JString ''1.'') (JString ''1'') = Inr (Fin 1)"
    unfolding compareVersions_def
    by (simp add: split_js_def n1 Number_js_empty isValidPart_def js_index_def js_eq_def)
  then show ?thesis by (simp add: eval_parts)
qed

text \<open>
  In the other direction a part of 22 digits matches \<^verbatim>\<open>^\d+$\<close>, but the Number it
  converts to prints as \<^verbatim>\<open>"1e+21"\<close>, and the result is NaN.
\<close>

lemma compareVersions_long_part:
  "wf_parts ''1000000000000000000000'' \<and>
   compareVersions (JString ''1000000000000000000000'') (JString ''1000000000000000000000'') = Inr NaN"
proof -
  have n1: "Number_js ''1000000000000000000000'' = Fin 1000000000000000000000"
    by (simp add: eval_digits round_double_1e21)
  have "compareVersions (JString ''1000000000000000000000'') (JString ''1000000000000000000000'') = Inr NaN"
    unfolding compareVersions_def
    by (simp add: split_js_def n1 isValidPart_def)
  then show ?thesis by (simp add: eval_parts)
qed

section \<open>checkVersion\<close>

lemma indexOf_from_found: "0 \<le> i \<Longrightarrow> 0 \<le> indexOf_from xs x i \<longleftrightarrow> x \<in> set xs"
  by (induction xs arbitrary: i) auto

lemma indexOf_array_found: "0 \<le> indexOf_array xs x \<longleftrightarrow> x \<in> set xs"
  by (simp add: indexOf_array_def indexOf_from_found)

lemma banned_hit: "0 \<le> indexOf_array (map JString banned) (JString v) \<longleftrightarrow> v \<in> set banned"
  by (auto simp: indexOf_array_found)

text \<open>
  The expression \<^verbatim>\<open>/^(\d+\.\d+)(.*)$/\<close> matches exactly the strings of the shape
  major, point, minor, suffix, where the suffix does not go on with a digit and holds
  no line terminator.
\<close>

lemma dot_not_digit: "\<not> is_digit CHR ''.''"
  by (simp add: is_digit_def)

lemma takeWhile_digits_then:
  assumes "list_all is_digit ds" "r = [] \<or> \<not> is_digit (hd r)"
  shows "takeWhile is_digit (ds @ r) = ds" "dropWhile is_digit (ds @ r) = r"
proof -
  from assms(2) have "takeWhile is_digit r = []" "dropWhile is_digit r = r"
    by (cases r; simp)+
  with assms(1) show "takeWhile is_digit (ds @ r) = ds" "dropWhile is_digit (ds @ r) = r"
    by (simp_all add: list_all_iff takeWhile_append2 dropWhile_append2)
qed

lemma patch_parts_shape:
  assumes "wf_part mj" "wf_part mn" "suf = [] \<or> \<not> is_digit (hd suf)"
    "\<not> list_ex LineTerminator suf"
  shows "patch_parts (mj @ ''.'' @ mn @ suf) = Some (mj @ ''.'' @ mn, suf)"
proof -
  have 1: "takeWhile is_digit (mj @ ''.'' @ mn @ suf) = mj"
          "dropWhile is_digit (mj @ ''.'' @ mn @ suf) = ''.'' @ mn @ suf"
    using assms(1) by (simp_all add: takeWhile_digits_then wf_part_def dot_not_digit)
  have 2: "takeWhile is_digit (mn @ suf) = mn" "dropWhile is_digit (mn @ suf) = suf"
    using assms(2,3) by (simp_all add: takeWhile_digits_then wf_part_def)
  show ?thesis
    unfolding patch_parts_def 1 using assms 2 by (simp add: wf_part_def)
qed

lemma patch_parts_Some:
  assumes "patch_parts v = Some (p1, p2)"
  shows "\<exists>mj mn. v = mj @ ''.'' @ mn @ p2 \<and> p1 = mj @ ''.'' @ mn \<and> wf_part mj \<and> wf_part mn
           \<and> (p2 = [] \<or> \<not> is_digit (hd p2)) \<and> \<not> list_ex LineTerminator p2"
proof -
  define mj where "mj = takeWhile is_digit v"
  define r1 where "r1 = dropWhile is_digit v"
  have v: "v = mj @ r1" by (simp add: mj_def r1_def)
  from assms have mj: "mj \<noteq> []"
    by (auto simp: patch_parts_def mj_def Let_def split: if_splits)
  from assms mj obtain r2 where r1: "r1 = CHR ''.'' # r2"
    by (auto simp: patch_parts_def mj_def r1_def Let_def split: if_splits list.splits)
  define mn where "mn = takeWhile is_digit r2"
  have r2: "r2 = mn @ dropWhile is_digit r2" by (simp add: mn_def)
  from assms mj r1 have res: "mn \<noteq> []" "\<not> list_ex LineTerminator (dropWhile is_digit r2)"
      "p1 = mj @ ''.'' @ mn" "p2 = dropWhile is_digit r2"
    by (auto simp: patch_parts_def mj_def [symmetric] r1_def [symmetric] mn_def Let_def
        split: if_splits)
  have "list_all is_digit mj" "list_all is_digit mn"
    by (auto simp: mj_def mn_def list_all_iff dest: set_takeWhileD)
  moreover have "p2 = [] \<or> \<not> is_digit (hd p2)"
    using hd_dropWhile [of is_digit r2] res(4) by auto
  moreover have "v = mj @ ''.'' @ mn @ p2"
    using v r1 r2 res(4) by simp
  ultimately show ?thesis using mj res by (auto simp: wf_part_def)
qed

lemma compareVersions_strings:
  "\<exists>c. compareVersions (JString a) (JString b) = Inr c"
  by (simp add: compareVersions_def Let_def)

lemma checkVersion_string:
  assumes "minVersion library = Some mv"
    and "patchOptional_version library (JString v) = Inr (JString v')"
    and "compareVersions (JString v') (JString (major mv @ minor mv)) = Inr c"
  shows "checkVersion library (JString v) =
     Inr \<lparr>name_v = name library,
          needsUpdate =
            (c = Fin (- 1) \<or> (\<exists>banned. bannedVersions library = Some banned \<and> v' \<in> set banned)),
          minVersion_v = major mv @ minor mv, version_v = JString v,
          bannedVersion =
            (if \<exists>banned. bannedVersions library = Some banned \<and> v' \<in> set banned
             then Some (JString v') else None),
          url_v = None, lineNumber_v = None\<rparr>"
proof (cases "bannedVersions library")
  case None
  with assms show ?thesis by (auto simp: checkVersion_def js_eq_def)
next
  case (Some banned)
  with assms show ?thesis by (auto simp: checkVersion_def js_eq_def banned_hit)
qed

text \<open>
  Claim C5, as amended. For a descriptor with a \<^verbatim>\<open>minVersion\<close> and an extracted
  version string \<open>v\<close>, \<^verbatim>\<open>checkVersion\<close> returns a record for \<open>v\<close> whose \<^verbatim>\<open>needsUpdate\<close> is
  true exactly when \<^verbatim>\<open>compareVersions(v', minVersion)\<close> is -1 or \<open>v'\<close> is one of
  \<^verbatim>\<open>bannedVersions\<close>, and whose \<^verbatim>\<open>bannedVersion\<close> is \<open>v'\<close> in the second case and absent
  otherwise. Here \<open>v'\<close> is the normalized version, and it is the normalized version,
  not the extracted one, that is looked up in \<^verbatim>\<open>bannedVersions\<close>: \<open>v'\<close> is \<open>v\<close> unless
  \<^verbatim>\<open>patchOptional\<close> is true and \<open>v\<close> reads major, point, minor, suffix with a suffix
  that does not start with a point and a digit; then \<open>v'\<close> has \<^verbatim>\<open>.0\<close> put in before the
  suffix.
\<close>

theorem checkVersion_needsUpdate:
  assumes "minVersion library = Some mv"
  shows "\<exists>v' vinfo.
      patchOptional_version library (JString v) = Inr (JString v')
    \<and> (patchOptional library \<noteq> Some True \<longrightarrow> v' = v)
    \<and> (\<forall>mj mn suf.
         patchOptional library = Some True \<and> v = mj @ ''.'' @ mn @ suf \<and> wf_part mj \<and> wf_part mn
         \<and> (suf = [] \<or> \<not> is_digit (hd suf)) \<and> \<not> list_ex LineTerminator suf \<longrightarrow>
         v' = (if dot_digit suf then v else mj @ ''.'' @ mn @ ''.0'' @ suf))
    \<and> (patchOptional library = Some True \<and>
         (\<nexists>mj mn suf. v = mj @ ''.'' @ mn @ suf \<and> wf_part mj \<and> wf_part mn
            \<and> (suf = [] \<or> \<not> is_digit (hd suf)) \<and> \<not> list_ex LineTerminator suf) \<longrightarrow>
         v' = v)
    \<and> checkVersion library (JString v) = Inr vinfo
    \<and> version_v vinfo = JString v
    \<and> (needsUpdate vinfo \<longleftrightarrow>
         compareVersions (JString v') (JString (major mv @ minor mv)) = Inr (Fin (- 1))
         \<or> (\<exists>banned. bannedVersions library = Some banned \<and> v' \<in> set banned))
    \<and> bannedVersion vinfo =
         (if \<exists>banned. bannedVersions library = Some banned \<and> v' \<in> set banned
          then Some (JString v') else None)"
proof -
  have "\<exists>v'. patchOptional_version library (JString v) = Inr (JString v')"
    by (simp add: patchOptional_version_def split: option.splits prod.splits)
  then obtain v' where v': "patchOptional_version library (JString v) = Inr (JString v')" ..
  have a: "patchOptional library \<noteq> Some True \<longrightarrow> v' = v"
    using v' by (auto simp: patchOptional_version_def)
  have b: "v' = (if dot_digit suf then v else mj @ ''.'' @ mn @ ''.0'' @ suf)"
    if "patchOptional library = Some True" "v = mj @ ''.'' @ mn @ suf" "wf_part mj" "wf_part mn"
       "suf = [] \<or> \<not> is_digit (hd suf)" "\<not> list_ex LineTerminator suf" for mj mn suf
    using v' that patch_parts_shape [OF that(3,4,5,6)]
    by (auto simp: patchOptional_version_def)
  have c: "v' = v"
    if "patchOptional library = Some True"
       "\<nexists>mj mn suf. v = mj @ ''.'' @ mn @ suf \<and> wf_part mj \<and> wf_part mn
            \<and> (suf = [] \<or> \<not> is_digit (hd suf)) \<and> \<not> list_ex LineTerminator suf"
  proof (cases "patch_parts v")
    case None
    with v' that(1) show ?thesis by (simp add: patchOptional_version_def)
  next
    case (Some pr)
    obtain p1 p2 where "pr = (p1, p2)" by (cases pr)
    with Some patch_parts_Some [of v p1 p2] that(2) show ?thesis by blast
  qed
  obtain c where c': "compareVersions (JString v') (JString (major mv @ minor mv)) = Inr c"
    using compareVersions_strings by blast
  note cv = checkVersion_string [OF assms v' c']
  show ?thesis
    apply (rule exI [of _ v'])
    apply (rule exI)
    apply (intro conjI)
           apply (rule v')
          apply (rule a)
         using b apply blast
        using c apply blast
       apply (rule cv)
      apply simp
     apply (simp add: c')
    apply simp
    done
qed


text \<open>So \<^verbatim>\<open>1.17\<close> is compared as \<^verbatim>\<open>1.17.0\<close> and \<^verbatim>\<open>1.17b2\<close> as \<^verbatim>\<open>1.17.0b2\<close>.\<close>

lemma compare_1_17_0: "compareVersions (JString ''1.17.0'') (JString ''1.3.0'') = Inr (Fin 1)"
proof -
  have e: "exact_parts ''1.17.0''" "exact_parts ''1.3.0''"
    by (simp_all add: eval_parts)
  have v: "part_values ''1.17.0'' = [1, 17, 0]" "part_values ''1.3.0'' = [1, 3, 0]"
    by (simp_all add: eval_parts)
  show ?thesis by (simp add: compareVersions_positional e v)
qed

lemma patch_1_17:
  "patchOptional lib = Some True \<Longrightarrow>
   patchOptional_version lib (JString ''1.17'') = Inr (JString ''1.17.0'')"
  by (simp add: patchOptional_version_def patch_parts_def is_digit_def dot_digit_def
      LineTerminator_def)

lemma patch_1_17b2:
  "patchOptional lib = Some True \<Longrightarrow>
   patchOptional_version lib (JString ''1.17b2'') = Inr (JString ''1.17.0b2'')"
  by (simp add: patchOptional_version_def patch_parts_def is_digit_def dot_digit_def
      LineTerminator_def)

text \<open>
  Claim C5 as first stated fails where the normalization changes the version: with
  \<^verbatim>\<open>patchOptional\<close> true and \<^verbatim>\<open>bannedVersions = ["1.17"]\<close>, the extracted version
  \<^verbatim>\<open>1.17\<close> is in the list, but \<^verbatim>\<open>1.17.0\<close> is looked up, and \<^verbatim>\<open>needsUpdate\<close> stays false.
\<close>

theorem checkVersion_banned_counterexample:
  "bannedVersions (builtin 8 ''jQuery Easing'' ''1.3.'' ''0'' (Some True)\<lparr>bannedVersions := Some [''1.17'']\<rparr>)
     = Some [''1.17'']
   \<and> checkVersion (builtin 8 ''jQuery Easing'' ''1.3.'' ''0'' (Some True)\<lparr>bannedVersions := Some [''1.17'']\<rparr>)
       (JString ''1.17'')
     = Inr \<lparr>name_v = Some ''jQuery Easing'', needsUpdate = False, minVersion_v = ''1.3.0'',
            version_v = JString ''1.17'', bannedVersion = None, url_v = None,
            lineNumber_v = None\<rparr>"
proof -
  let ?lib = "builtin 8 ''jQuery Easing'' ''1.3.'' ''0'' (Some True)\<lparr>bannedVersions := Some [''1.17'']\<rparr>"
  have m: "minVersion ?lib = Some \<lparr>major = ''1.3.'', minor = ''0''\<rparr>"
    by (simp add: builtin_def)
  have p: "patchOptional_version ?lib (JString ''1.17'') = Inr (JString ''1.17.0'')"
    by (rule patch_1_17) (simp add: builtin_def)
  have c: "compareVersions (JString ''1.17.0'') (JString (major \<lparr>major = ''1.3.'', minor = ''0''\<rparr> @ minor \<lparr>major = ''1.3.'', minor = ''0''\<rparr>)) = Inr (Fin 1)"
    using compare_1_17_0 by simp
  show ?thesis
    using checkVersion_string [OF m p c] by (simp add: builtin_def)
qed

text \<open>The theorem at the descriptor of jQuery Easing and the version \<^verbatim>\<open>1.17\<close>.\<close>

theorem checkVersion_needsUpdate_witness:
  "minVersion (builtin 8 ''jQuery Easing'' ''1.3.'' ''0'' (Some True))
     = Some \<lparr>major = ''1.3.'', minor = ''0''\<rparr>
   \<and> (\<exists>vinfo. checkVersion (builtin 8 ''jQuery Easing'' ''1.3.'' ''0'' (Some True)) (JString ''1.17'')
         = Inr vinfo \<and> version_v vinfo = JString ''1.17'' \<and> \<not> needsUpdate vinfo
         \<and> bannedVersion vinfo = None)"
proof -
  let ?lib = "builtin 8 ''jQuery Easing'' ''1.3.'' ''0'' (Some True)"
  have m: "minVersion ?lib = Some \<lparr>major = ''1.3.'', minor = ''0''\<rparr>"
    by (simp add: builtin_def)
  have po: "patchOptional ?lib = Some True" and bv: "bannedVersions ?lib = None"
    by (simp_all add: builtin_def)
  from checkVersion_needsUpdate [OF m, of "''1.17''"] obtain v' vinfo where
    1: "patchOptional_version ?lib (JString ''1.17'') = Inr (JString v')"
    and 2: "checkVersion ?lib (JString ''1.17'') = Inr vinfo"
    and 3: "version_v vinfo = JString ''1.17''"
    and 4: "needsUpdate vinfo \<longleftrightarrow>
         compareVersions (JString v') (JString (major \<lparr>major = ''1.3.'', minor = ''0''\<rparr> @ minor \<lparr>major = ''1.3.'', minor = ''0''\<rparr>)) = Inr (Fin (- 1))
         \<or> (\<exists>banned. bannedVersions ?lib = Some banned \<and> v' \<in> set banned)"
    and 5: "bannedVersion vinfo =
         (if \<exists>banned. bannedVersions ?lib = Some banned \<and> v' \<in> set banned
          then Some (JString v') else None)"
    by blast
  from 1 patch_1_17 [OF po] have v': "v' = ''1.17.0''" by simp
  from 4 v' bv compare_1_17_0 have "\<not> needsUpdate vinfo" by simp
  moreover from 5 bv have "bannedVersion vinfo = None" by simp
  ultimately show ?thesis using m 2 3 by blast
qed

section \<open>checkScript\<close>

text \<open>A string that does not occur is looked up at -1, and the text before it is empty.\<close>

lemma indexOf_str_absent: "\<not> sublist p s \<Longrightarrow> indexOf_str s p i = - 1"
proof (induction s arbitrary: i)
  case Nil
  have "p \<noteq> []"
  proof
    assume "p = []"
    with Nil show False by simp
  qed
  then show ?case by simp
next
  case (Cons c cs)
  from Cons.prems have 1: "\<not> prefix p (c # cs)" and 2: "\<not> sublist p cs"
    by (simp_all add: sublist_Cons_right)
  from Cons.IH [OF 2] 1 show ?case by (simp only: indexOf_str.simps if_False)
qed

lemma line_of_absent:
  assumes "\<not> sublist (jsUrl js) (content_w website)"
  shows "line_of website js = 1"
  using indexOf_str_absent [OF assms]
  by (simp add: line_of_def indexOf_js_def substr_js_def split_js_def)

lemma checkScript_loop_data:
  assumes "checkScript_loop engine js website libs = Inr st" "data_s st = Some v"
  shows "lineNumber_v v = Some (line_of website js) \<and> url_v v = Some (jsUrl js)
         \<and> needsUpdate v \<and> \<not> passed_s st"
  using assms
proof (induction libs)
  case Nil
  then show ?case by auto
next
  case (Cons lib libs)
  then show ?case
    by (auto simp: line_of_def Let_def split: if_splits sum.splits option.splits)
qed

text \<open>
  Claim C10. When the \<^verbatim>\<open>jsUrl\<close> of a script occurs nowhere in the markup of the page,
  a violation that \<^verbatim>\<open>checkScript\<close> reports for the script carries \<^verbatim>\<open>lineNumber\<close> 1:
  \<^verbatim>\<open>indexOf\<close> gives -1, \<^verbatim>\<open>substr(0, -1)\<close> is empty, and its split at the newline has
  one piece.
\<close>

theorem checkScript_lineNumber_absent:
  assumes "\<not> sublist (jsUrl js) (content_w website)"
    and "checkScript engine libraries js website = Inr st"
    and "data_s st = Some v"
  shows "lineNumber_v v = Some 1"
  using checkScript_loop_data [of engine js website libraries st v] assms
  by (simp add: checkScript_def line_of_absent)

text \<open>The first built-in descriptor on the example text: 1.5.0 is below 1.6.1.\<close>

lemma lib_check_prototype:
  "lib_check example_engine (builtin 0 ''Prototype'' ''1.6.'' ''1'' None) prototype_150 =
     Inr (Some \<lparr>name_v = Some ''Prototype'', needsUpdate = True, minVersion_v = ''1.6.1'',
            version_v = JString ''1.5.0'', bannedVersion = None, url_v = None,
            lineNumber_v = None\<rparr>)"
proof -
  let ?lib = "builtin 0 ''Prototype'' ''1.6.'' ''1'' None"
  have m: "minVersion ?lib = Some \<lparr>major = ''1.6.'', minor = ''1''\<rparr>"
    by (simp add: builtin_def)
  have p: "patchOptional_version ?lib (JString ''1.5.0'') = Inr (JString ''1.5.0'')"
    by (simp add: patchOptional_version_def builtin_def)
  have e: "exact_parts ''1.5.0''" "exact_parts ''1.6.1''"
    by (simp_all add: eval_parts)
  have v: "part_values ''1.5.0'' = [1, 5, 0]" "part_values ''1.6.1'' = [1, 6, 1]"
    by (simp_all add: eval_parts)
  have c: "compareVersions (JString ''1.5.0'') (JString (major \<lparr>major = ''1.6.'', minor = ''1''\<rparr> @ minor \<lparr>major = ''1.6.'', minor = ''1''\<rparr>)) = Inr (Fin (- 1))"
    by (simp add: compareVersions_positional e v)
  from checkVersion_string [OF m p c] show ?thesis
    by (simp add: lib_check_def example_engine_def builtin_def)
qed


lemma builtin_fields [simp]:
  "skip (builtin k n mj mn po) = None"
  "check (builtin k n mj mn po) = Some (Builtin k)"
  "name (builtin k n mj mn po) = Some n"
  by (simp_all add: builtin_def)

text \<open>
  The theorem at the example page and a script \<^verbatim>\<open>c.js\<close> that the page does not name.
\<close>

theorem checkScript_lineNumber_absent_witness:
  "\<not> sublist ''c.js'' (content_w two_scripts)
   \<and> (\<exists>st v. checkScript example_engine builtin_libraries
                \<lparr>jsUrl = ''c.js'', content_js = Some prototype_150\<rparr> two_scripts = Inr st
          \<and> data_s st = Some v \<and> lineNumber_v v = Some 1)"
proof -
  let ?js = "\<lparr>jsUrl = ''c.js'', content_js = Some prototype_150\<rparr>"
  have a: "\<not> sublist (jsUrl ?js) (content_w two_scripts)"
    by (simp add: two_scripts_def sublist_Cons_right)
  obtain st where st: "checkScript example_engine builtin_libraries ?js two_scripts = Inr st"
    and d: "data_s st \<noteq> None"
    by (simp add: checkScript_def builtin_libraries_def lib_check_prototype)
  from d obtain v where v: "data_s st = Some v" by blast
  from checkScript_lineNumber_absent [OF a st v] a st v show ?thesis by auto
qed

section \<open>check\<close>

lemma checkScript_loop_embed:
  "jsUrl js = ''embed'' \<Longrightarrow>
   checkScript_loop engine js website libs = Inr \<lparr>passed_s = True, data_s = None\<rparr>"
  by (induction libs) auto

text \<open>The loop of \<^verbatim>\<open>checkScript\<close> finds the first violation of the script.\<close>

lemma checkScript_loop_first:
  assumes "\<forall>lib \<in> set libs.
             case lib_check engine lib (script_text js) of Inl e \<Rightarrow> False | Inr r \<Rightarrow> True"
  shows "checkScript_loop engine js website libs =
     Inr (case first_violation engine libs website js of
            None \<Rightarrow> \<lparr>passed_s = True, data_s = None\<rparr>
          | Some v \<Rightarrow> \<lparr>passed_s = False, data_s = Some v\<rparr>)"
proof (cases "jsUrl js = ''embed''")
  case True
  then show ?thesis by (simp add: checkScript_loop_embed first_violation_def)
next
  case False
  from assms show ?thesis
  proof (induction libs)
    case Nil
    then show ?case by (simp add: first_violation_def)
  next
    case (Cons lib libs)
    then have ih: "checkScript_loop engine js website libs =
       Inr (case first_violation engine libs website js of
              None \<Rightarrow> \<lparr>passed_s = True, data_s = None\<rparr>
            | Some v \<Rightarrow> \<lparr>passed_s = False, data_s = Some v\<rparr>)"
      by simp
    from Cons.prems obtain r where r: "lib_check engine lib (script_text js) = Inr r"
      by (cases "lib_check engine lib (script_text js)") auto
    have fv: "first_violation engine (lib # libs) website js =
       (if violating engine js lib
        then (case r of Some x \<Rightarrow>
                Some (x\<lparr>url_v := Some (jsUrl js), lineNumber_v := Some (line_of website js)\<rparr>)
              | None \<Rightarrow> None)
        else first_violation engine libs website js)"
      using False r by (simp add: first_violation_def)
    show ?case
    proof (cases "skip lib = Some True")
      case True
      then show ?thesis using ih fv by (simp add: violating_def)
    next
      case ns: False
      show ?thesis
      proof (cases r)
        case None
        then show ?thesis using ns False r ih fv
          by (simp add: violating_def script_text_def)
      next
        case (Some x)
        then show ?thesis using ns False r ih fv
          by (simp add: violating_def script_text_def line_of_def Let_def)
      qed
    qed
  qed
qed

text \<open>The loop of \<^verbatim>\<open>check\<close> appends the violation of every script that has one.\<close>

lemma check_loop_reports:
  assumes "\<forall>js \<in> set scripts. \<forall>lib \<in> set libraries.
             case lib_check engine lib (script_text js) of Inl e \<Rightarrow> False | Inr r \<Rightarrow> True"
  shows "check_loop engine libraries website scripts test =
     Inr (test\<lparr>passed_t :=
                 passed_t test \<and>
                 List.map_filter (first_violation engine libraries website) scripts = [],
               data_t :=
                 data_t test @
                 map Some (List.map_filter (first_violation engine libraries website) scripts)\<rparr>)"
  using assms
proof (induction scripts arbitrary: test)
  case Nil
  then show ?case by (simp add: map_filter_simps)
next
  case (Cons js rest)
  then have cs: "checkScript engine libraries js website =
     Inr (case first_violation engine libraries website js of
            None \<Rightarrow> \<lparr>passed_s = True, data_s = None\<rparr>
          | Some v \<Rightarrow> \<lparr>passed_s = False, data_s = Some v\<rparr>)"
    by (simp add: checkScript_def checkScript_loop_first)
  from Cons have ih: "\<And>t. check_loop engine libraries website rest t =
     Inr (t\<lparr>passed_t :=
              passed_t t \<and> List.map_filter (first_violation engine libraries website) rest = [],
            data_t :=
              data_t t @ map Some (List.map_filter (first_violation engine libraries website) rest)\<rparr>)"
    by simp
  show ?case
    by (cases "first_violation engine libraries website js")
      (simp_all add: cs ih map_filter_simps)
qed

text \<open>
  Claim C1, as amended. When no check function throws, the library analyzer resolves
  with one violation for every script that has one, in the order of the scripts: for
  each script the first violating match in registry order (the scan of that script
  stops there, the scan of the page goes on with the next script). \<^verbatim>\<open>passed\<close> is false
  and \<^verbatim>\<open>data\<close> is the list of these violations when there is one, and \<^verbatim>\<open>passed\<close> is true
  and \<^verbatim>\<open>data\<close> is \<^verbatim>\<open>[]\<close> when no script holds a recognized out-of-date or banned library.
\<close>

theorem check_reports_each_script:
  assumes "no_throw engine libraries website"
  shows "check_libs engine libraries website =
     Inr \<lparr>testName_t = ''jslibs'', url_t = href_w website,
          passed_t = (List.map_filter (first_violation engine libraries website) (js_w website) = []),
          data_t = map Some (List.map_filter (first_violation engine libraries website) (js_w website))\<rparr>"
  using assms by (simp add: check_libs_def no_throw_def check_loop_reports)


lemma lib_check_example_other:
  "k \<noteq> 0 \<Longrightarrow> lib_check example_engine (builtin k n mj mn po) text = Inr None"
  by (simp add: lib_check_def example_engine_def)

text \<open>What \<open>first_violation\<close> picks: the first descriptor of the registry that violates.\<close>

lemma find_first_iff:
  "find P xs = Some x \<longleftrightarrow>
     (\<exists>ys zs. xs = ys @ x # zs \<and> (\<forall>y \<in> set ys. \<not> P y) \<and> P x)"
proof (induction xs)
  case Nil
  then show ?case by simp
next
  case (Cons a xs)
  show ?case
  proof (cases "P a")
    case True
    have "(\<exists>ys zs. a # xs = ys @ x # zs \<and> (\<forall>y \<in> set ys. \<not> P y) \<and> P x) \<longleftrightarrow> a = x"
    proof
      assume "\<exists>ys zs. a # xs = ys @ x # zs \<and> (\<forall>y \<in> set ys. \<not> P y) \<and> P x"
      then obtain ys zs where *: "a # xs = ys @ x # zs" "\<forall>y \<in> set ys. \<not> P y" by blast
      with True show "a = x" by (cases ys) auto
    next
      assume "a = x"
      with True have "a # xs = [] @ x # xs \<and> (\<forall>y \<in> set []. \<not> P y) \<and> P x" by simp
      then show "\<exists>ys zs. a # xs = ys @ x # zs \<and> (\<forall>y \<in> set ys. \<not> P y) \<and> P x" by blast
    qed
    with True show ?thesis by simp
  next
    case False
    have "(\<exists>ys zs. a # xs = ys @ x # zs \<and> (\<forall>y \<in> set ys. \<not> P y) \<and> P x) \<longleftrightarrow>
          (\<exists>ys zs. xs = ys @ x # zs \<and> (\<forall>y \<in> set ys. \<not> P y) \<and> P x)"
    proof
      assume "\<exists>ys zs. a # xs = ys @ x # zs \<and> (\<forall>y \<in> set ys. \<not> P y) \<and> P x"
      then obtain ys zs where *: "a # xs = ys @ x # zs" "\<forall>y \<in> set ys. \<not> P y" "P x" by blast
      with False obtain ys' where "ys = a # ys'" by (cases ys) auto
      with * have "xs = ys' @ x # zs \<and> (\<forall>y \<in> set ys'. \<not> P y) \<and> P x" by simp
      then show "\<exists>ys zs. xs = ys @ x # zs \<and> (\<forall>y \<in> set ys. \<not> P y) \<and> P x" by blast
    next
      assume "\<exists>ys zs. xs = ys @ x # zs \<and> (\<forall>y \<in> set ys. \<not> P y) \<and> P x"
      then obtain ys zs where *: "xs = ys @ x # zs" "\<forall>y \<in> set ys. \<not> P y" "P x" by blast
      with False have "a # xs = (a # ys) @ x # zs \<and> (\<forall>y \<in> set (a # ys). \<not> P y) \<and> P x"
        by simp
      then show "\<exists>ys zs. a # xs = ys @ x # zs \<and> (\<forall>y \<in> set ys. \<not> P y) \<and> P x" by blast
    qed
    with False Cons.IH show ?thesis by simp
  qed
qed

lemma first_violation_iff:
  "first_violation engine libraries website js = Some v \<longleftrightarrow>
     jsUrl js \<noteq> ''embed'' \<and>
     (\<exists>before lib after r.
        libraries = before @ lib # after
        \<and> (\<forall>l \<in> set before. \<not> violating engine js l)
        \<and> skip lib \<noteq> Some True
        \<and> lib_check engine lib (script_text js) = Inr (Some r) \<and> needsUpdate r
        \<and> v = r\<lparr>url_v := Some (jsUrl js), lineNumber_v := Some (line_of website js)\<rparr>)"
  (is "?L \<longleftrightarrow> ?R")
proof
  assume l: ?L
  then have ne: "jsUrl js \<noteq> ''embed''" by (auto simp: first_violation_def split: if_splits)
  from l ne obtain lib where f: "find (violating engine js) libraries = Some lib"
    by (auto simp: first_violation_def split: option.splits)
  from l ne f obtain r where r: "lib_check engine lib (script_text js) = Inr (Some r)"
      "v = r\<lparr>url_v := Some (jsUrl js), lineNumber_v := Some (line_of website js)\<rparr>"
    by (auto simp: first_violation_def split: sum.splits option.splits)
  from f obtain before after where b: "libraries = before @ lib # after"
      "\<forall>l \<in> set before. \<not> violating engine js l" "violating engine js lib"
    unfolding find_first_iff by blast
  from b(3) r(1) have "skip lib \<noteq> Some True" "needsUpdate r"
    by (simp_all add: violating_def)
  with ne b r show ?R by blast
next
  assume ?R
  then obtain before lib after r where ne: "jsUrl js \<noteq> ''embed''"
    and b: "libraries = before @ lib # after" "\<forall>l \<in> set before. \<not> violating engine js l"
    and k: "skip lib \<noteq> Some True" "lib_check engine lib (script_text js) = Inr (Some r)"
       "needsUpdate r"
    and v: "v = r\<lparr>url_v := Some (jsUrl js), lineNumber_v := Some (line_of website js)\<rparr>"
    by blast
  from k have "violating engine js lib" by (simp add: violating_def)
  with b have "find (violating engine js) libraries = Some lib"
    unfolding find_first_iff by blast
  with ne k v show ?L by (simp add: first_violation_def)
qed

lemma no_throw_example: "no_throw example_engine builtin_libraries two_scripts"
  by (simp add: no_throw_def two_scripts_def builtin_libraries_def script_text_def
      lib_check_prototype lib_check_example_other)

text \<open>
  Claim C1 as first stated fails on a page with two violating scripts: the scan does
  not stop after the first violation, and \<^verbatim>\<open>data\<close> holds a violation for each script.
\<close>

theorem check_collects_counterexample:
  "check_libs example_engine builtin_libraries two_scripts =
     Inr \<lparr>testName_t = ''jslibs'', url_t = ''http://example.com/'', passed_t = False,
          data_t =
            [Some \<lparr>name_v = Some ''Prototype'', needsUpdate = True, minVersion_v = ''1.6.1'',
                   version_v = JString ''1.5.0'', bannedVersion = None,
                   url_v = Some ''a.js'', lineNumber_v = Some 1\<rparr>,
             Some \<lparr>name_v = Some ''Prototype'', needsUpdate = True, minVersion_v = ''1.6.1'',
                   version_v = JString ''1.5.0'', bannedVersion = None,
                   url_v = Some ''b.js'', lineNumber_v = Some 2\<rparr>]\<rparr>"
  by (simp add: check_libs_def two_scripts_def checkScript_def builtin_libraries_def
      lib_check_prototype indexOf_js_def substr_js_def split_js_def)

lemma first_violation_example:
  "jsUrl js \<noteq> ''embed'' \<Longrightarrow> content_js js = Some prototype_150 \<Longrightarrow>
   first_violation example_engine builtin_libraries website js \<noteq> None"
  by (simp add: first_violation_def builtin_libraries_def violating_def script_text_def
      lib_check_prototype)

text \<open>The theorem at the example page, where no check function throws.\<close>

theorem check_reports_each_script_witness:
  "no_throw example_engine builtin_libraries two_scripts
   \<and> (\<exists>test. check_libs example_engine builtin_libraries two_scripts = Inr test
         \<and> \<not> passed_t test \<and> length (data_t test) = 2)"
proof -
  let ?f = "first_violation example_engine builtin_libraries two_scripts"
  let ?a = "\<lparr>jsUrl = ''a.js'', content_js = Some prototype_150\<rparr>"
  let ?b = "\<lparr>jsUrl = ''b.js'', content_js = Some prototype_150\<rparr>"
  have "?f ?a \<noteq> None" "?f ?b \<noteq> None"
    by (rule first_violation_example; simp)+
  then obtain va vb where v: "?f ?a = Some va" "?f ?b = Some vb" by blast
  have js: "js_w two_scripts = [?a, ?b]" by (simp add: two_scripts_def)
  have mf: "List.map_filter ?f (js_w two_scripts) = [va, vb]"
    unfolding js by (simp add: map_filter_simps v)
  from check_reports_each_script [OF no_throw_example] no_throw_example
  show ?thesis unfolding mf by simp
qed

section \<open>mergeConfig leaves the defaults alone\<close>

lemma copy_library_Returns:
  assumes "copy_library st a = Returns st'"
  shows "store_m st' = store_m st @ [store_m st ! a]"
    and "\<exists>ks. libmap_m st' = ks @ libmap_m st \<and> (\<forall>(k, n) \<in> set ks. n = length (store_m st))"
    and "\<And>k. truthy_name (store_m st ! a) = Some k \<Longrightarrow> map_of (libmap_m st') k \<noteq> None"
    and "newlibraries st' = newlibraries st @ [length (store_m st)]"
  using assms
  by (auto simp: copy_library_def Let_def split: option.splits if_splits)

lemma map_of_append_fresh:
  assumes "\<forall>(k, n) \<in> set ks. n = m" "map_of (ks @ l) k = Some a"
  shows "a = m \<or> map_of l k = Some a"
  using assms by (auto simp: map_of_append dest!: map_of_SomeD split: option.splits)

lemma copy_library_kept:
  assumes "copy_library st a = Returns st'" "defaults_kept h D st"
  shows "defaults_kept h D st'"
proof -
  note r = copy_library_Returns [OF assms(1)]
  from r(2) obtain ks where ks: "libmap_m st' = ks @ libmap_m st"
    "\<forall>(k, n) \<in> set ks. n = length (store_m st)" by blast
  have "a' \<notin> D" if "map_of (libmap_m st') k = Some a'" for k a'
  proof -
    from map_of_append_fresh [OF ks(2)] that ks(1)
    have "a' = length (store_m st) \<or> map_of (libmap_m st) k = Some a'" by simp
    with assms(2) show ?thesis by (auto simp: defaults_kept_def)
  qed
  moreover have "\<forall>d \<in> D. d < length (store_m st') \<and> store_m st' ! d = h ! d"
    using assms(2) r(1) by (auto simp: defaults_kept_def nth_append)
  ultimately show ?thesis by (simp add: defaults_kept_def)
qed

lemma copy_library_known:
  assumes "copy_library st a = Returns st'" "defaults_known h D st"
  shows "defaults_known h D st'"
proof -
  from copy_library_Returns(2) [OF assms(1)] obtain ks where
    ks: "libmap_m st' = ks @ libmap_m st" by blast
  show ?thesis
    using assms(2) unfolding defaults_known_def ks
    by (auto simp: map_of_append split: option.splits)
qed

lemma forEach_library_kept:
  assumes "forEach_library st as = Returns st'" "defaults_kept h D st"
  shows "defaults_kept h D st'"
  using assms
proof (induction as arbitrary: st)
  case Nil
  then show ?case by simp
next
  case (Cons a as)
  then show ?case
    by (auto split: outcome.splits dest: copy_library_kept)
qed

lemma forEach_library_known:
  assumes "forEach_library st as = Returns st'" "defaults_kept h D st"
    "defaults_known h D' st" "set as \<subseteq> D"
  shows "defaults_known h (D' \<union> set as) st'"
  using assms
proof (induction as arbitrary: st D')
  case Nil
  then show ?case by simp
next
  case (Cons a as)
  from Cons.prems(1) obtain st1 where 1: "copy_library st a = Returns st1"
    and 2: "forEach_library st1 as = Returns st'"
    by (auto split: outcome.splits)
  from Cons.prems(2,4) have a: "store_m st ! a = h ! a" by (simp add: defaults_kept_def)
  have "defaults_known h (insert a D') st1"
    using copy_library_known [OF 1 Cons.prems(3)] copy_library_Returns(3) [OF 1] a
    by (auto simp: defaults_known_def)
  from Cons.IH [OF 2 copy_library_kept [OF 1 Cons.prems(2)] this] Cons.prems(4)
  show ?case by simp
qed

text \<open>
  An override is pushed, and written to, only when \<^verbatim>\<open>libmap\<close> does not know its name;
  the name of a default is known; so no default is pushed or written to. A target
  found through \<^verbatim>\<open>libmap\<close> is a copy or a pushed override.
\<close>

lemma merge_entry_kept:
  assumes "merge_entry st c = Returns st'" "defaults_kept h D st" "defaults_known h D st"
  shows "defaults_kept h D st' \<and> defaults_known h D st'"
proof (cases "truthy_name (store_m st ! c)")
  case None
  with assms show ?thesis by (simp add: merge_entry_def)
next
  case (Some k)
  show ?thesis
  proof (cases "libmap_get (libmap_m st) k")
    case Absent
    then have nk: "map_of (libmap_m st) k = None"
      by (auto simp: libmap_get_def split: option.splits)
    have cD: "c \<notin> D"
    proof
      assume "c \<in> D"
      with assms(2) Some have "truthy_name (h ! c) = Some k" by (simp add: defaults_kept_def)
      with assms(3) \<open>c \<in> D\<close> nk show False by (auto simp: defaults_known_def)
    qed
    from assms(1) Some Absent have st': "st' =
       \<lparr>store_m = (store_m st)[c := (store_m st ! c)\<lparr>check := Some defaultCheck\<rparr>],
        libmap_m = (k, c) # libmap_m st, newlibraries = newlibraries st @ [c]\<rparr>"
      by (simp add: merge_entry_def)
    have ne: "c \<noteq> d" if "d \<in> D" for d using that cD by auto
    show ?thesis
      using assms(2,3) cD unfolding st' defaults_kept_def defaults_known_def
      by (auto simp: nth_list_update_neq ne)
  next
    case (Own t)
    then have "map_of (libmap_m st) k = Some t"
      by (auto simp: libmap_get_def split: option.splits if_splits)
    with assms(2) have tD: "t \<notin> D" by (simp add: defaults_kept_def)
    from assms(1) Some Own have st': "st' =
       st\<lparr>store_m := (store_m st)[t := overlay (store_m st ! t) (store_m st ! c)]\<rparr>"
      by (simp add: merge_entry_def)
    have ne: "t \<noteq> d" if "d \<in> D" for d using that tD by auto
    show ?thesis
      using assms(2,3) tD unfolding st' defaults_kept_def defaults_known_def
      by (auto simp: nth_list_update_neq ne)
  next
    case Inherited_function
    with assms(1) Some show ?thesis by (simp add: merge_entry_def)
  next
    case Object_prototype
    with assms(1) Some show ?thesis by (simp add: merge_entry_def)
  qed
qed

lemma forEach_config_kept:
  assumes "forEach_config st cs = (st', r)" "defaults_kept h D st" "defaults_known h D st"
  shows "defaults_kept h D st'"
  using assms
proof (induction cs arbitrary: st)
  case Nil
  then show ?case by simp
next
  case (Cons c cs)
  show ?case
  proof (cases "merge_entry st c")
    case (Returns st1)
    with Cons.prems(1) have "forEach_config st1 cs = (st', r)" by simp
    with merge_entry_kept [OF Returns Cons.prems(2,3)] show ?thesis
      using Cons.IH by blast
  next
    case (Throws e)
    with Cons.prems show ?thesis by simp
  next
    case Outside
    with Cons.prems show ?thesis by simp
  qed
qed

lemma mergeConfig_keeps_defaults:
  assumes "mergeConfig h ds cs = (h', r)" "\<forall>d \<in> set ds. d < length h"
  shows "\<forall>d \<in> set ds. d < length h' \<and> h' ! d = h ! d"
proof (cases "forEach_library \<lparr>store_m = h, libmap_m = [], newlibraries = []\<rparr> ds")
  case (Returns st)
  let ?st0 = "\<lparr>store_m = h, libmap_m = [], newlibraries = []\<rparr>"
  have k0: "defaults_kept h (set ds) ?st0" using assms(2) by (simp add: defaults_kept_def)
  have n0: "defaults_known h {} ?st0" by (simp add: defaults_known_def)
  have k1: "defaults_kept h (set ds) st" by (rule forEach_library_kept [OF Returns k0])
  have n1: "defaults_known h (set ds) st"
    using forEach_library_known [OF Returns k0 n0] by simp
  obtain st' u where f: "forEach_config st cs = (st', u)" by (cases "forEach_config st cs")
  from forEach_config_kept [OF f k1 n1] have "defaults_kept h (set ds) st'" .
  moreover from assms(1) Returns f have "h' = store_m st'"
    by (cases u) (simp_all add: mergeConfig_def)
  ultimately show ?thesis by (simp add: defaults_kept_def)
next
  case (Throws e)
  with assms show ?thesis by (simp add: mergeConfig_def)
next
  case Outside
  with assms show ?thesis by (simp add: mergeConfig_def)
qed


section \<open>mergeConfig against the specification\<close>

lemma names_of_append: "names_of (xs @ ys) = names_of xs @ names_of ys"
  by (simp add: names_of_def map_filter_def)

lemma names_of_single: "names_of [l] = (case truthy_name l of None \<Rightarrow> [] | Some k \<Rightarrow> [k])"
  by (simp add: names_of_def map_filter_def split: option.splits)

lemma names_of_mem: "k \<in> set (names_of ls) \<longleftrightarrow> (\<exists>l \<in> set ls. truthy_name l = Some k)"
  by (auto simp: names_of_def map_filter_def image_iff)

lemma truthy_name_check [simp]: "truthy_name (l\<lparr>check := x\<rparr>) = truthy_name l"
  by (simp add: truthy_name_def)

lemma truthy_name_overlay:
  "truthy_name c = Some k \<Longrightarrow> truthy_name (overlay l c) = Some k"
  by (auto simp: truthy_name_def overlay_def field_over_def split: option.splits if_splits)

lemma libmap_get_plain:
  "\<not> inherited_key k \<Longrightarrow>
   libmap_get m k = (case map_of m k of None \<Rightarrow> Absent | Some a \<Rightarrow> Own a)"
  by (simp add: libmap_get_def inherited_key_def split: option.splits)

text \<open>
  Copying a default keeps the relation, when the name of the default is new among the
  names copied so far.
\<close>

lemma copy_library_merged:
  assumes m: "merged_as h cs st ls"
    and st: "store_m st = h @ xs"
    and a: "a < length h"
    and np: "truthy_name (h ! a) \<noteq> Some ''__proto__''"
    and dn: "distinct (names_of (ls @ [h ! a]))"
  shows "\<exists>st'. copy_library st a = Returns st'
           \<and> merged_as h cs st' (ls @ [h ! a])
           \<and> newlibraries st' = newlibraries st @ [length (store_m st)]
           \<and> store_m st' = h @ xs @ [h ! a]"
proof -
  let ?n = "length (store_m st)"
  have lib: "store_m st ! a = h ! a" using st a by (simp add: nth_append)
  define st1 where "st1 = st\<lparr>store_m := store_m st @ [h ! a],
                   newlibraries := newlibraries st @ [?n]\<rparr>"
  define st' where "st' = (case truthy_name (h ! a) of None \<Rightarrow> st1
      | Some k \<Rightarrow> st1\<lparr>libmap_m := (k, ?n) # libmap_m st\<rparr>)"
  have r: "copy_library st a = Returns st'"
    using np by (simp add: copy_library_def Let_def lib st'_def st1_def split: option.splits)
  have s': "store_m st' = store_m st @ [h ! a]" "newlibraries st' = newlibraries st @ [?n]"
    by (simp_all add: st'_def st1_def split: option.splits)
  from m have m1: "map (\<lambda>a. store_m st ! a) (newlibraries st) = ls"
    and m2: "distinct (newlibraries st)"
    and m3: "\<forall>x \<in> set (newlibraries st). x < ?n"
    and m4: "\<And>k x. map_of (libmap_m st) k = Some x \<longleftrightarrow>
               x \<in> set (newlibraries st) \<and> truthy_name (store_m st ! x) = Some k"
    and m5: "\<forall>c \<in> set cs. c < ?n \<and> store_m st ! c = h ! c \<and> c \<notin> set (newlibraries st)"
    by (simp_all add: merged_as_def)
  have old: "store_m st' ! x = store_m st ! x" if "x < ?n" for x
    using that by (simp add: s' nth_append)
  have new: "store_m st' ! ?n = h ! a" by (simp add: s')
  have g1: "map (\<lambda>a. store_m st' ! a) (newlibraries st') = ls @ [h ! a]"
  proof -
    have "map (\<lambda>a. store_m st' ! a) (newlibraries st) = map (\<lambda>a. store_m st ! a) (newlibraries st)"
      using m3 old by (intro map_cong) auto
    then show ?thesis using m1 new by (simp add: s'(2))
  qed
  have g2: "distinct (newlibraries st')" using m2 m3 by (auto simp: s')
  have g3: "\<forall>x \<in> set (newlibraries st'). x < length (store_m st')"
    using m3 by (auto simp: s')
  have fresh: "\<not> (\<exists>x \<in> set (newlibraries st). truthy_name (store_m st ! x) = Some k)"
    if "truthy_name (h ! a) = Some k" for k
  proof
    assume "\<exists>x \<in> set (newlibraries st). truthy_name (store_m st ! x) = Some k"
    then have "k \<in> set (names_of ls)" using m1 by (auto simp: names_of_mem)
    moreover have "k \<in> set (names_of [h ! a])" using that by (simp add: names_of_single)
    ultimately show False using dn by (auto simp: names_of_append)
  qed
  have g4: "map_of (libmap_m st') k = Some x \<longleftrightarrow>
             x \<in> set (newlibraries st') \<and> truthy_name (store_m st' ! x) = Some k" for k x
  proof (cases "truthy_name (h ! a)")
    case None
    then have l: "libmap_m st' = libmap_m st" by (simp add: st'_def st1_def)
    show ?thesis
    proof (cases "x = ?n")
      case True
      with m3 m4 [of k x] None new show ?thesis by (auto simp: l s'(2))
    next
      case False
      with m3 m4 [of k x] old [of x] show ?thesis by (auto simp: l s'(2))
    qed
  next
    case (Some k')
    then have l: "libmap_m st' = (k', ?n) # libmap_m st" by (simp add: st'_def st1_def)
    show ?thesis
    proof (cases "x = ?n")
      case True
      with m3 m4 [of k x] Some new show ?thesis by (auto simp: l s'(2))
    next
      case False
      with m3 m4 [of k x] old [of x] fresh [OF Some] show ?thesis by (auto simp: l s'(2))
    qed
  qed
  have g5: "\<forall>c \<in> set cs. c < length (store_m st') \<and> store_m st' ! c = h ! c
              \<and> c \<notin> set (newlibraries st')"
    using m5 old by (auto simp: s')
  from g1 g2 g3 g4 g5 have "merged_as h cs st' (ls @ [h ! a])"
    unfolding merged_as_def by blast
  with r s' st show ?thesis by simp
qed


lemma upt_add_Suc: "[n..<n + Suc m] = n # [Suc n..<Suc n + m]"
proof -
  have "n < n + Suc m" by simp
  from upt_conv_Cons [OF this] show ?thesis by (simp del: upt_Suc)
qed

lemma forEach_library_merged:
  assumes "merged_as h cs st ls"
    and "store_m st = h @ xs"
    and "\<forall>a \<in> set ds. a < length h"
    and "\<forall>a \<in> set ds. truthy_name (h ! a) \<noteq> Some ''__proto__''"
    and "distinct (names_of (ls @ map (\<lambda>a. h ! a) ds))"
  shows "\<exists>st'. forEach_library st ds = Returns st'
           \<and> merged_as h cs st' (ls @ map (\<lambda>a. h ! a) ds)
           \<and> newlibraries st' =
               newlibraries st @ [length (store_m st)..<length (store_m st) + length ds]"
  using assms
proof (induction ds arbitrary: st ls xs)
  case Nil
  then show ?case by simp
next
  case (Cons a ds)
  have dn: "distinct (names_of ((ls @ [h ! a]) @ map (\<lambda>a. h ! a) ds))"
    using Cons.prems(5) by simp
  then have dn1: "distinct (names_of (ls @ [h ! a]))"
    by (metis distinct_append names_of_append)
  from copy_library_merged [OF Cons.prems(1,2) _ _ dn1] Cons.prems(3,4)
  obtain st1 where 1: "copy_library st a = Returns st1"
    and 2: "merged_as h cs st1 (ls @ [h ! a])"
    and 3: "newlibraries st1 = newlibraries st @ [length (store_m st)]"
    and 4: "store_m st1 = h @ xs @ [h ! a]"
    by auto
  from Cons.IH [OF 2 4 _ _ dn] Cons.prems(3,4)
  obtain st' where 5: "forEach_library st1 ds = Returns st'"
    and 6: "merged_as h cs st' ((ls @ [h ! a]) @ map (\<lambda>a. h ! a) ds)"
    and 7: "newlibraries st' =
       newlibraries st1 @ [length (store_m st1)..<length (store_m st1) + length ds]"
    by auto
  have len: "length (store_m st1) = Suc (length (store_m st))"
    using 4 Cons.prems(2) by simp
  have "[length (store_m st)..<length (store_m st) + length (a # ds)] =
      length (store_m st) # [Suc (length (store_m st))..<Suc (length (store_m st)) + length ds]"
    using upt_add_Suc [of "length (store_m st)" "length ds"] by simp
  then have "newlibraries st' =
      newlibraries st @ [length (store_m st)..<length (store_m st) + length (a # ds)]"
    using 7 3 len by simp
  with 1 5 6 show ?case by simp
qed

text \<open>
  One override, on an object of its own and with a name that \<^verbatim>\<open>Object.prototype\<close> does
  not have: the callback returns, and what it does to the store is \<open>spec_step\<close> on the
  descriptors.
\<close>

lemma merge_entry_merged:
  assumes m: "merged_as h (c # cs) st ls"
    and d: "c \<notin> set cs"
    and ok: "\<And>k. truthy_name (h ! c) = Some k \<Longrightarrow> \<not> inherited_key k"
  shows "\<exists>st'. merge_entry st c = Returns st' \<and> merged_as h cs st' (spec_step ls (h ! c))"
proof -
  from m have m1: "map (\<lambda>a. store_m st ! a) (newlibraries st) = ls"
    and m2: "distinct (newlibraries st)"
    and m3: "\<forall>x \<in> set (newlibraries st). x < length (store_m st)"
    and m4: "\<And>k x. map_of (libmap_m st) k = Some x \<longleftrightarrow>
               x \<in> set (newlibraries st) \<and> truthy_name (store_m st ! x) = Some k"
    and m5: "\<forall>c' \<in> set cs. c' < length (store_m st) \<and> store_m st ! c' = h ! c'
               \<and> c' \<notin> set (newlibraries st)"
    and c: "c < length (store_m st)" "store_m st ! c = h ! c" "c \<notin> set (newlibraries st)"
    by (simp_all add: merged_as_def)
  show ?thesis
  proof (cases "truthy_name (h ! c)")
    case None
    then have "merge_entry st c = Returns st" by (simp add: merge_entry_def c(2))
    moreover have "spec_step ls (h ! c) = ls" using None by (simp add: spec_step_def)
    moreover have "merged_as h cs st ls"
      unfolding merged_as_def using m1 m2 m3 m4 m5 by blast
    ultimately show ?thesis by simp
  next
    case (Some k)
    note get = libmap_get_plain [OF ok [OF Some], of "libmap_m st"]
    have known: "list_ex (\<lambda>l. truthy_name l = Some k) ls \<longleftrightarrow> map_of (libmap_m st) k \<noteq> None"
    proof -
      have "list_ex (\<lambda>l. truthy_name l = Some k) ls \<longleftrightarrow>
            (\<exists>x \<in> set (newlibraries st). truthy_name (store_m st ! x) = Some k)"
        unfolding m1 [symmetric] by (auto simp: list_ex_iff)
      also have "\<dots> \<longleftrightarrow> (\<exists>x. map_of (libmap_m st) k = Some x)"
        using m4 by blast
      finally show ?thesis by auto
    qed
    show ?thesis
    proof (cases "map_of (libmap_m st) k")
      case None
      define st' where "st' =
         \<lparr>store_m = (store_m st)[c := (h ! c)\<lparr>check := Some defaultCheck\<rparr>],
          libmap_m = (k, c) # libmap_m st, newlibraries = newlibraries st @ [c]\<rparr>"
      have r: "merge_entry st c = Returns st'"
        using Some None get by (simp add: merge_entry_def c(2) st'_def)
      have sp: "spec_step ls (h ! c) = ls @ [(h ! c)\<lparr>check := Some defaultCheck\<rparr>]"
        using Some None known by (simp add: spec_step_def)
      have old: "store_m st' ! x = store_m st ! x" if "x \<noteq> c" for x
        using that by (simp add: st'_def)
      have new: "store_m st' ! c = (h ! c)\<lparr>check := Some defaultCheck\<rparr>"
        using c(1) by (simp add: st'_def)
      have g1: "map (\<lambda>a. store_m st' ! a) (newlibraries st') =
          ls @ [(h ! c)\<lparr>check := Some defaultCheck\<rparr>]"
      proof -
        have "map (\<lambda>a. store_m st' ! a) (newlibraries st) =
            map (\<lambda>a. store_m st ! a) (newlibraries st)"
        proof (intro map_cong refl)
          fix x assume "x \<in> set (newlibraries st)"
          with c(3) have "x \<noteq> c" by auto
          then show "store_m st' ! x = store_m st ! x" by (rule old)
        qed
        then show ?thesis using m1 new by (simp add: st'_def)
      qed
      have g2: "distinct (newlibraries st')" using m2 c(3) by (simp add: st'_def)
      have g3: "\<forall>x \<in> set (newlibraries st'). x < length (store_m st')"
        using m3 c(1) by (auto simp: st'_def)
      have nok: "\<not> (x \<in> set (newlibraries st) \<and> truthy_name (store_m st ! x) = Some k)" for x
        using m4 [of k x] None by simp
      have g4: "map_of (libmap_m st') k' = Some x \<longleftrightarrow>
             x \<in> set (newlibraries st') \<and> truthy_name (store_m st' ! x) = Some k'" for k' x
      proof (cases "x = c")
        case True
        have "map_of (libmap_m st) k' \<noteq> Some c" using m4 [of k' c] c(3) by simp
        with True Some new show ?thesis by (auto simp: st'_def)
      next
        case False
        have "newlibraries st' = newlibraries st @ [c]" "libmap_m st' = (k, c) # libmap_m st"
          by (simp_all add: st'_def)
        with False m4 [of k' x] old [OF False] nok [of x] show ?thesis by auto
      qed
      have g5: "\<forall>c' \<in> set cs. c' < length (store_m st') \<and> store_m st' ! c' = h ! c'
              \<and> c' \<notin> set (newlibraries st')"
      proof
        fix c' assume c': "c' \<in> set cs"
        with d have ne: "c' \<noteq> c" by auto
        from m5 c' old [OF ne] ne show "c' < length (store_m st') \<and> store_m st' ! c' = h ! c'
              \<and> c' \<notin> set (newlibraries st')" by (auto simp: st'_def)
      qed
      from g1 g2 g3 g4 g5 have "merged_as h cs st' (ls @ [(h ! c)\<lparr>check := Some defaultCheck\<rparr>])"
        unfolding merged_as_def by blast
      with r sp show ?thesis by simp
    next
      case (Some t)
      note t = Some
      from m4 [of k t] t have tn: "t \<in> set (newlibraries st)"
        "truthy_name (store_m st ! t) = Some k" by simp_all
      with m3 have tl: "t < length (store_m st)" by simp
      define st' where "st' =
         st\<lparr>store_m := (store_m st)[t := overlay (store_m st ! t) (h ! c)]\<rparr>"
      have r: "merge_entry st c = Returns st'"
        using \<open>truthy_name (h ! c) = Some k\<close> t get by (simp add: merge_entry_def c(2) st'_def)
      have sp: "spec_step ls (h ! c) =
          map (\<lambda>l. if truthy_name l = Some k then overlay l (h ! c) else l) ls"
        using \<open>truthy_name (h ! c) = Some k\<close> t known by (simp add: spec_step_def)
      have only: "truthy_name (store_m st ! x) = Some k \<longleftrightarrow> x = t"
        if "x \<in> set (newlibraries st)" for x
        using m4 [of k x] that t tn by auto
      have old: "store_m st' ! x = store_m st ! x" if "x \<noteq> t" for x
        using that by (simp add: st'_def)
      have new: "store_m st' ! t = overlay (store_m st ! t) (h ! c)"
        using tl by (simp add: st'_def)
      have g1: "map (\<lambda>a. store_m st' ! a) (newlibraries st') =
          map (\<lambda>l. if truthy_name l = Some k then overlay l (h ! c) else l) ls"
      proof -
        have "map (\<lambda>a. store_m st' ! a) (newlibraries st) =
            map (\<lambda>a. if truthy_name (store_m st ! a) = Some k
                      then overlay (store_m st ! a) (h ! c) else store_m st ! a)
              (newlibraries st)"
        proof (intro map_cong refl)
          fix x assume "x \<in> set (newlibraries st)"
          from only [OF this] old [of x] new
          show "store_m st' ! x =
            (if truthy_name (store_m st ! x) = Some k
             then overlay (store_m st ! x) (h ! c) else store_m st ! x)"
            by (cases "x = t") simp_all
        qed
        also have "\<dots> = map (\<lambda>l. if truthy_name l = Some k then overlay l (h ! c) else l)
            (map (\<lambda>a. store_m st ! a) (newlibraries st))"
          by (simp add: comp_def)
        finally show ?thesis by (simp add: m1 st'_def)
      qed
      have nm: "truthy_name (store_m st' ! x) = truthy_name (store_m st ! x)" for x
      proof (cases "x = t")
        case True
        with new tn(2) truthy_name_overlay [OF \<open>truthy_name (h ! c) = Some k\<close>]
        show ?thesis by simp
      next
        case False
        then show ?thesis by (simp add: old)
      qed
      have g4: "map_of (libmap_m st') k' = Some x \<longleftrightarrow>
             x \<in> set (newlibraries st') \<and> truthy_name (store_m st' ! x) = Some k'" for k' x
        using m4 [of k' x] nm [of x] by (simp add: st'_def)
      have g5: "\<forall>c' \<in> set cs. c' < length (store_m st') \<and> store_m st' ! c' = h ! c'
              \<and> c' \<notin> set (newlibraries st')"
      proof
        fix c' assume c': "c' \<in> set cs"
        with m5 tn(1) have ne: "c' \<noteq> t" by auto
        from m5 c' old [OF ne] show "c' < length (store_m st') \<and> store_m st' ! c' = h ! c'
              \<and> c' \<notin> set (newlibraries st')" by (auto simp: st'_def)
      qed
      have "merged_as h cs st'
          (map (\<lambda>l. if truthy_name l = Some k then overlay l (h ! c) else l) ls)"
        unfolding merged_as_def using g1 m2 m3 g4 g5 by (simp add: st'_def)
      with r sp show ?thesis by simp
    qed
  qed
qed

lemma forEach_config_merged:
  assumes "merged_as h cs st ls" "distinct cs"
    and "\<forall>c \<in> set cs. \<forall>k. truthy_name (h ! c) = Some k \<longrightarrow> \<not> inherited_key k"
  shows "\<exists>st'. forEach_config st cs = (st', Returns ())
           \<and> merged_as h [] st' (foldl spec_step ls (map (\<lambda>a. h ! a) cs))"
  using assms
proof (induction cs arbitrary: st ls)
  case Nil
  then show ?case by simp
next
  case (Cons c cs)
  from merge_entry_merged [OF Cons.prems(1)] Cons.prems(2,3)
  obtain st1 where 1: "merge_entry st c = Returns st1"
    and 2: "merged_as h cs st1 (spec_step ls (h ! c))"
    by auto
  from Cons.IH [OF 2] Cons.prems(2,3)
  obtain st' where "forEach_config st1 cs = (st', Returns ())"
    "merged_as h [] st' (foldl spec_step (spec_step ls (h ! c)) (map (\<lambda>a. h ! a) cs))"
    by auto
  with 1 show ?case by simp
qed

lemma merge_entry_pushes:
  assumes "merge_entry st c = Returns st'"
  shows "\<exists>ys. newlibraries st' = newlibraries st @ ys \<and> set ys \<subseteq> {c}"
  using assms
  by (auto simp: merge_entry_def Let_def split: option.splits slot.splits)

lemma forEach_config_pushes:
  assumes "forEach_config st cs = (st', r)"
  shows "\<exists>ys. newlibraries st' = newlibraries st @ ys \<and> set ys \<subseteq> set cs"
  using assms
proof (induction cs arbitrary: st)
  case Nil
  then show ?case by simp
next
  case (Cons c cs)
  show ?case
  proof (cases "merge_entry st c")
    case (Returns st1)
    from merge_entry_pushes [OF Returns] obtain ys where
      1: "newlibraries st1 = newlibraries st @ ys" "set ys \<subseteq> {c}" by blast
    from Cons.prems Returns have "forEach_config st1 cs = (st', r)" by simp
    from Cons.IH [OF this] obtain zs where
      2: "newlibraries st' = newlibraries st1 @ zs" "set zs \<subseteq> set cs" by blast
    from 1 2 have "newlibraries st' = newlibraries st @ (ys @ zs) \<and> set (ys @ zs) \<subseteq> set (c # cs)"
      by auto
    then show ?thesis by blast
  next
    case (Throws e)
    with Cons.prems show ?thesis by auto
  next
    case Outside
    with Cons.prems show ?thesis by auto
  qed
qed

lemma mergeConfig_spec:
  assumes valid: "\<forall>a \<in> set ds \<union> set cs. a < length h"
    and dist: "distinct cs"
    and dnames: "distinct (names_of (map (\<lambda>a. h ! a) ds))"
    and dproto: "\<forall>a \<in> set ds. truthy_name (h ! a) \<noteq> Some ''__proto__''"
    and cnames: "\<forall>c \<in> set cs. \<forall>k. truthy_name (h ! c) = Some k \<longrightarrow> \<not> inherited_key k"
  shows "\<exists>h' res. mergeConfig h ds cs = (h', Returns res)
     \<and> map (\<lambda>a. h' ! a) res = spec_merge (map (\<lambda>a. h ! a) ds) (map (\<lambda>a. h ! a) cs)
     \<and> take (length ds) res = [length h..<length h + length ds]
     \<and> distinct res"
proof -
  let ?st0 = "\<lparr>store_m = h, libmap_m = [], newlibraries = []\<rparr>"
  have m0: "merged_as h cs ?st0 []" using valid by (simp add: merged_as_def)
  from forEach_library_merged [OF m0, of "[]" ds] valid dnames dproto
  obtain st1 where 1: "forEach_library ?st0 ds = Returns st1"
    and 2: "merged_as h cs st1 (map (\<lambda>a. h ! a) ds)"
    and 3: "newlibraries st1 = [length h..<length h + length ds]"
    by auto
  from forEach_config_merged [OF 2 dist cnames]
  obtain st2 where 4: "forEach_config st1 cs = (st2, Returns ())"
    and 5: "merged_as h [] st2 (foldl spec_step (map (\<lambda>a. h ! a) ds) (map (\<lambda>a. h ! a) cs))"
    by auto
  have 6: "mergeConfig h ds cs = (store_m st2, Returns (newlibraries st2))"
    by (simp add: mergeConfig_def 1 4)
  from forEach_config_pushes [OF 4]
  have "\<exists>ys. newlibraries st2 = newlibraries st1 @ ys" by blast
  then have 7: "take (length ds) (newlibraries st2) = [length h..<length h + length ds]"
    using 3 by auto
  from 5 6 7 show ?thesis by (auto simp: merged_as_def spec_merge_def)
qed


text \<open>The three cases of \<open>spec_step\<close>, the fields of an overlay, and the generic rule.\<close>

lemma spec_step_cases:
  "truthy_name c = None \<Longrightarrow> spec_step ls c = ls"
  "truthy_name c = Some k \<Longrightarrow> k \<notin> set (names_of ls) \<Longrightarrow>
     spec_step ls c = ls @ [c\<lparr>check := Some defaultCheck\<rparr>]"
  "truthy_name c = Some k \<Longrightarrow> k \<in> set (names_of ls) \<Longrightarrow>
     spec_step ls c = map (\<lambda>l. if truthy_name l = Some k then overlay l c else l) ls"
  by (auto simp: spec_step_def names_of_mem list_ex_iff)

lemma overlay_fields:
  "name (overlay l c) = (case name c of None \<Rightarrow> name l | Some x \<Rightarrow> Some x)"
  "minVersion (overlay l c) = (case minVersion c of None \<Rightarrow> minVersion l | Some x \<Rightarrow> Some x)"
  "patchOptional (overlay l c) =
     (case patchOptional c of None \<Rightarrow> patchOptional l | Some x \<Rightarrow> Some x)"
  "bannedVersions (overlay l c) =
     (case bannedVersions c of None \<Rightarrow> bannedVersions l | Some x \<Rightarrow> Some x)"
  "skip (overlay l c) = (case skip c of None \<Rightarrow> skip l | Some x \<Rightarrow> Some x)"
  "match (overlay l c) = (case match c of None \<Rightarrow> match l | Some x \<Rightarrow> Some x)"
  "library.check (overlay l c) =
     (case library.check c of None \<Rightarrow> library.check l | Some x \<Rightarrow> Some x)"
  by (simp_all add: overlay_def field_over_def)

lemma defaultCheck_rule:
  "lib_check engine (c\<lparr>check := Some defaultCheck\<rparr>) scriptText =
     (case RegExp_m engine (match c) scriptText of
        Inl e \<Rightarrow> Inl e
      | Inr None \<Rightarrow> Inr None
      | Inr (Some g) \<Rightarrow>
          map_sum id Some (checkVersion (c\<lparr>check := Some defaultCheck\<rparr>) g))"
  by (simp add: lib_check_def)

text \<open>
  Claim C6, as amended. Let the defaults bear distinct names, none of them
  \<^verbatim>\<open>__proto__\<close>, and let the overrides be distinct objects whose names are not members of
  \<^verbatim>\<open>Object.prototype\<close>. Then \<^verbatim>\<open>mergeConfig\<close> returns a new array: fresh copies of the
  defaults first, in order, and the defaults themselves are not changed. The
  descriptors in the array are those the overrides produce one after the other: an
  override without a name is ignored; an override whose name no descriptor in the
  array bears yet (no default and no earlier override) is appended as a new descriptor
  with the generic rule \<^verbatim>\<open>defaultCheck\<close>; an override whose name a descriptor of the
  array bears (a default, or an override appended earlier) is laid over that
  descriptor, replacing the fields the override has and leaving the others.
\<close>

theorem mergeConfig_by_name:
  assumes "\<forall>a \<in> set ds \<union> set cs. a < length h"
    and "distinct cs"
    and "distinct (names_of (map (\<lambda>a. h ! a) ds))"
    and "\<forall>a \<in> set ds. truthy_name (h ! a) \<noteq> Some ''__proto__''"
    and "\<forall>c \<in> set cs. \<forall>k. truthy_name (h ! c) = Some k \<longrightarrow> \<not> inherited_key k"
  shows "(\<exists>h' res. mergeConfig h ds cs = (h', Returns res)
       \<and> map (\<lambda>a. h' ! a) res = spec_merge (map (\<lambda>a. h ! a) ds) (map (\<lambda>a. h ! a) cs)
       \<and> take (length ds) res = [length h..<length h + length ds]
       \<and> distinct res
       \<and> (\<forall>d \<in> set ds. h' ! d = h ! d))
     \<and> (\<forall>ls c. truthy_name c = None \<longrightarrow> spec_step ls c = ls)
     \<and> (\<forall>ls c k. truthy_name c = Some k \<and> k \<notin> set (names_of ls) \<longrightarrow>
           spec_step ls c = ls @ [c\<lparr>check := Some defaultCheck\<rparr>])
     \<and> (\<forall>ls c k. truthy_name c = Some k \<and> k \<in> set (names_of ls) \<longrightarrow>
           spec_step ls c = map (\<lambda>l. if truthy_name l = Some k then overlay l c else l) ls)"
proof -
  from mergeConfig_spec [OF assms] obtain h' res where
    1: "mergeConfig h ds cs = (h', Returns res)"
    and 2: "map (\<lambda>a. h' ! a) res = spec_merge (map (\<lambda>a. h ! a) ds) (map (\<lambda>a. h ! a) cs)"
      "take (length ds) res = [length h..<length h + length ds]" "distinct res"
    by blast
  from assms(1) have "\<forall>d \<in> set ds. d < length h" by simp
  from mergeConfig_keeps_defaults [OF 1 this] have "\<forall>d \<in> set ds. h' ! d = h ! d" by simp
  with 1 2 show ?thesis by (auto simp: spec_step_cases)
qed

text \<open>The built-in registry with the one override \<open>my_lib\<close>.\<close>

lemma spec_merge_example:
  "spec_merge (map (\<lambda>a. (builtin_libraries @ [my_lib]) ! a) original_libraries)
     (map (\<lambda>a. (builtin_libraries @ [my_lib]) ! a) [16]) =
   builtin_libraries @ [my_lib\<lparr>check := Some defaultCheck\<rparr>]"
  by code_simp

lemma example_store: "(builtin_libraries @ [my_lib]) ! 16 = my_lib"
  by (simp add: builtin_libraries_def)

lemma MyLib_plain: "truthy_name my_lib = Some ''MyLib''" "\<not> inherited_key ''MyLib''"
  by (simp_all add: truthy_name_def my_lib_def inherited_key_def
      Object_prototype_functions_def)

lemma example_hypotheses:
  "\<forall>a \<in> set original_libraries \<union> set [16]. a < length (builtin_libraries @ [my_lib])"
  "distinct [16::nat]"
  "distinct (names_of (map (\<lambda>a. (builtin_libraries @ [my_lib]) ! a) original_libraries))"
  "\<forall>a \<in> set original_libraries.
     truthy_name ((builtin_libraries @ [my_lib]) ! a) \<noteq> Some ''__proto__''"
  "\<forall>c \<in> set [16]. \<forall>k. truthy_name ((builtin_libraries @ [my_lib]) ! c) = Some k \<longrightarrow>
     \<not> inherited_key k"
proof -
  show "\<forall>a \<in> set original_libraries \<union> set [16]. a < length (builtin_libraries @ [my_lib])"
    by code_simp
  show "distinct [16::nat]" by simp
  show "distinct (names_of (map (\<lambda>a. (builtin_libraries @ [my_lib]) ! a) original_libraries))"
    by code_simp
  show "\<forall>a \<in> set original_libraries.
     truthy_name ((builtin_libraries @ [my_lib]) ! a) \<noteq> Some ''__proto__''"
    by code_simp
  show "\<forall>c \<in> set [16]. \<forall>k. truthy_name ((builtin_libraries @ [my_lib]) ! c) = Some k \<longrightarrow>
     \<not> inherited_key k"
    using MyLib_plain by (simp add: example_store)
qed

text \<open>The theorem there: the override is appended, with the generic rule.\<close>

theorem mergeConfig_by_name_witness:
  "list_all (\<lambda>a. a < length (builtin_libraries @ [my_lib])) (original_libraries @ [16])
   \<and> distinct (names_of (map (\<lambda>a. (builtin_libraries @ [my_lib]) ! a) original_libraries))
   \<and> (\<exists>h' res. mergeConfig (builtin_libraries @ [my_lib]) original_libraries [16]
                  = (h', Returns res)
        \<and> map (\<lambda>a. h' ! a) res = builtin_libraries @ [my_lib\<lparr>check := Some defaultCheck\<rparr>]
        \<and> distinct res)"
proof -
  from mergeConfig_by_name [OF example_hypotheses]
  obtain h' res where 1:
    "mergeConfig (builtin_libraries @ [my_lib]) original_libraries [16] = (h', Returns res)"
    and 2: "map (\<lambda>a. h' ! a) res =
       spec_merge (map (\<lambda>a. (builtin_libraries @ [my_lib]) ! a) original_libraries)
         (map (\<lambda>a. (builtin_libraries @ [my_lib]) ! a) [16])"
    and 3: "distinct res"
    by blast
  from 2 have "map (\<lambda>a. h' ! a) res = builtin_libraries @ [my_lib\<lparr>check := Some defaultCheck\<rparr>]"
    by (simp only: spec_merge_example)
  moreover have
    "list_all (\<lambda>a. a < length (builtin_libraries @ [my_lib])) (original_libraries @ [16])"
    using example_hypotheses(1) by (simp add: list_all_iff)
  ultimately show ?thesis using 1 3 example_hypotheses(3) by blast
qed

text \<open>
  Claim C6 as first stated fails for two overrides of one name that no default bears:
  not each is appended. The first is, and the second is laid over the first (here it
  sets \<^verbatim>\<open>skip\<close>); the new array has seventeen descriptors, not eighteen.
\<close>

theorem mergeConfig_same_name_counterexample:
  "''MyLib'' \<notin> set (names_of builtin_libraries)
   \<and> truthy_name my_lib = Some ''MyLib'' \<and> truthy_name my_lib_again = Some ''MyLib''
   \<and> mergeConfig (builtin_libraries @ [my_lib, my_lib_again]) original_libraries [16, 17] =
       (builtin_libraries
          @ [my_lib\<lparr>skip := Some True, check := Some defaultCheck\<rparr>, my_lib_again]
          @ builtin_libraries,
        Returns ([18..<34] @ [16]))"
  by code_simp

text \<open>
  An override named as a member of \<^verbatim>\<open>Object.prototype\<close> is not appended either: the
  lookup in \<^verbatim>\<open>libmap\<close> finds the inherited function, and the call throws.
\<close>

lemma mergeConfig_inherited_name_throws:
  "snd (mergeConfig (builtin_libraries @ [my_lib\<lparr>name := Some ''constructor''\<rparr>])
     original_libraries [16]) = Throws TypeError"
  by code_simp

section \<open>mergeConfig with Object.prototype: the defaults stay as they are\<close>

lemma overlay_no_fields [simp]: "overlay no_fields l = l"
  by (cases l) (simp add: overlay_def no_fields_def field_over_def split: option.splits)

lemma through_no_fields [simp]: "through no_fields l = l"
  by (simp add: through_def)

lemma name_through:
  "name (through i l) = (case name l of None \<Rightarrow> name i | Some k \<Rightarrow> Some k)"
  by (simp add: through_def overlay_def field_over_def)

lemma truthy_name_through_own:
  assumes "name l = Some k" "k \<noteq> []"
  shows "truthy_name (through i l) = Some k"
  using assms by (simp add: truthy_name_def name_through)

lemma copy_library_p_fields:
  "store_p (copy_library_p st a) = store_p st @ [through (inherited_p st) (store_p st ! a)]"
  "inherited_p (copy_library_p st a) = inherited_p st"
  "newlibraries_p (copy_library_p st a) = newlibraries_p st @ [length (store_p st)]"
  by (simp_all add: copy_library_p_def Let_def split: option.splits)

lemma copy_library_p_libmap:
  "libmap_p (copy_library_p st a) =
     (case truthy_name (through (inherited_p st) (store_p st ! a)) of
        None \<Rightarrow> libmap_p st
      | Some k \<Rightarrow>
          if k = ''__proto__'' then libmap_p st else (k, length (store_p st)) # libmap_p st)"
  "parent_p (copy_library_p st a) =
     (if truthy_name (through (inherited_p st) (store_p st ! a)) = Some ''__proto__''
      then Some (length (store_p st)) else parent_p st)"
  by (simp_all add: copy_library_p_def Let_def split: option.splits)

lemma copy_library_p_kept:
  assumes "defaults_kept_p h D st"
  shows "defaults_kept_p h D (copy_library_p st a)"
proof -
  have fresh: "length (store_p st) \<notin> D"
    using assms by (auto simp: defaults_kept_def defaults_kept_p_def)
  have "\<forall>d \<in> D. d < length (store_p (copy_library_p st a)) \<and>
          store_p (copy_library_p st a) ! d = h ! d"
    using assms by (auto simp: defaults_kept_p_def copy_library_p_fields nth_append)
  moreover have "a' \<notin> D" if "map_of (libmap_p (copy_library_p st a)) k = Some a'" for k a'
    using that assms fresh
    by (auto simp: copy_library_p_libmap defaults_kept_p_def split: option.splits if_splits)
  moreover have "p \<notin> D" if "parent_p (copy_library_p st a) = Some p" for p
    using that assms fresh
    by (auto simp: copy_library_p_libmap defaults_kept_p_def split: if_splits)
  ultimately show ?thesis
    unfolding defaults_kept_p_def by blast
qed

lemma copy_library_p_known:
  assumes "defaults_known_p h D st"
  shows "defaults_known_p h D (copy_library_p st a)"
  using assms unfolding defaults_known_p_def copy_library_p_libmap
  by (fastforce split: option.splits)

lemma copy_library_p_knows:
  assumes "store_p st ! a = h ! a" "name (h ! a) = Some k" "k \<noteq> []" "k \<noteq> ''__proto__''"
  shows "map_of (libmap_p (copy_library_p st a)) k \<noteq> None"
  using assms by (simp add: copy_library_p_libmap truthy_name_through_own)

lemma forEach_library_p_kept:
  assumes "defaults_kept_p h D st"
  shows "defaults_kept_p h D (forEach_library_p st as)"
  using assms unfolding forEach_library_p_def
  by (induction as arbitrary: st) (simp_all add: copy_library_p_kept)

lemma forEach_library_p_known:
  assumes "defaults_kept_p h D st" "defaults_known_p h D' st" "set as \<subseteq> D"
    "\<forall>a \<in> set as. \<exists>k. name (h ! a) = Some k \<and> k \<noteq> [] \<and> k \<noteq> ''__proto__''"
  shows "defaults_known_p h (D' \<union> set as) (forEach_library_p st as)"
  using assms unfolding forEach_library_p_def
proof (induction as arbitrary: st D')
  case Nil
  then show ?case by simp
next
  case (Cons a as)
  from Cons.prems(1,3) have a: "store_p st ! a = h ! a"
    by (simp add: defaults_kept_p_def)
  from Cons.prems(4) obtain k where
    k: "name (h ! a) = Some k" "k \<noteq> []" "k \<noteq> ''__proto__''" by auto
  have "defaults_known_p h (insert a D') (copy_library_p st a)"
    using copy_library_p_known [OF Cons.prems(2)] copy_library_p_knows [OF a k] k
    by (auto simp: defaults_known_p_def)
  from Cons.IH [OF copy_library_p_kept [OF Cons.prems(1)] this] Cons.prems(3,4)
  show ?case by simp
qed

text \<open>
  As before: an override is pushed, and written to, only when \<^verbatim>\<open>libmap\<close> does not know
  the name it reads as, and the name of a default is its own and is known; a target
  found through \<^verbatim>\<open>libmap\<close> is a copy or a pushed override, and otherwise the write goes
  to \<^verbatim>\<open>Object.prototype\<close> or to no descriptor.
\<close>

lemma merge_entry_p_kept:
  assumes "merge_entry_p st c = Inr st'" "defaults_kept_p h D st" "defaults_known_p h D st"
  shows "defaults_kept_p h D st' \<and> defaults_known_p h D st'"
proof (cases "truthy_name (through (inherited_p st) (store_p st ! c))")
  case None
  with assms show ?thesis by (simp add: merge_entry_p_def Let_def)
next
  case (Some k)
  show ?thesis
  proof (cases "libmap_find st k")
    case Nothing
    have cD: "c \<notin> D"
    proof
      assume c: "c \<in> D"
      with assms(3) obtain k' where
        k': "name (h ! c) = Some k'" "k' \<noteq> []" "map_of (libmap_p st) k' \<noteq> None"
        by (auto simp: defaults_known_p_def)
      from c assms(2) have "store_p st ! c = h ! c" by (simp add: defaults_kept_p_def)
      with Some k'(1,2) have "k = k'" by (simp add: truthy_name_through_own)
      with k'(3) Nothing show False
        by (auto simp: libmap_find_def split: option.splits)
    qed
    from assms(1) Some Nothing have st': "st' =
       st\<lparr>store_p := (store_p st)[c := (store_p st ! c)\<lparr>check := Some defaultCheck\<rparr>],
          libmap_p := (k, c) # libmap_p st, newlibraries_p := newlibraries_p st @ [c]\<rparr>"
      by (simp add: merge_entry_p_def Let_def)
    have ne: "c \<noteq> d" if "d \<in> D" for d using that cD by auto
    have "defaults_kept_p h D st'"
      using assms(2) cD unfolding st' defaults_kept_p_def
      by (auto simp: nth_list_update_neq ne)
    moreover have "defaults_known_p h D st'"
      using assms(3) unfolding st' defaults_known_p_def
      by fastforce
    ultimately show ?thesis ..
  next
    case (Descriptor t)
    then have "map_of (libmap_p st) k = Some t \<or> parent_p st = Some t"
      by (auto simp: libmap_find_def inherited_value_def split: option.splits if_splits)
    with assms(2) have tD: "t \<notin> D" by (auto simp: defaults_kept_p_def)
    from assms(1) Some Descriptor have st': "st' =
       st\<lparr>store_p := (store_p st)[t := overlay (store_p st ! t)
                                          (through (inherited_p st) (store_p st ! c))]\<rparr>"
      by (simp add: merge_entry_p_def Let_def)
    have ne: "t \<noteq> d" if "d \<in> D" for d using that tD by auto
    show ?thesis
      using assms(2,3) tD unfolding st' defaults_kept_p_def defaults_known_p_def
      by (auto simp: nth_list_update_neq ne)
  next
    case The_prototype
    with assms(1) Some have "st' =
       st\<lparr>inherited_p := overlay (inherited_p st) (through (inherited_p st) (store_p st ! c))\<rparr>"
      by (simp add: merge_entry_p_def Let_def)
    with assms(2,3) show ?thesis
      by (simp add: defaults_kept_p_def defaults_known_p_def)
  next
    case Function_object
    with assms(1) Some show ?thesis by (simp add: merge_entry_p_def Let_def)
  next
    case Primitive
    with assms(1) Some show ?thesis by (simp add: merge_entry_p_def Let_def)
  next
    case Plain_object
    with assms Some show ?thesis by (simp add: merge_entry_p_def Let_def)
  qed
qed

lemma forEach_config_p_kept:
  assumes "forEach_config_p st cs = (st', r)" "defaults_kept_p h D st"
    "defaults_known_p h D st"
  shows "defaults_kept_p h D st'"
  using assms
proof (induction cs arbitrary: st)
  case Nil
  then show ?case by simp
next
  case (Cons c cs)
  show ?case
  proof (cases "merge_entry_p st c")
    case (Inr st1)
    with Cons.prems(1) have "forEach_config_p st1 cs = (st', r)" by simp
    with merge_entry_p_kept [OF Inr Cons.prems(2,3)] show ?thesis
      using Cons.IH by blast
  next
    case (Inl e)
    with Cons.prems show ?thesis by simp
  qed
qed

lemma mergeConfig_p_keeps_defaults:
  assumes "mergeConfig_p (h, i) ds cs = ((h', i'), r)" "\<forall>d \<in> set ds. d < length h"
    "\<forall>d \<in> set ds. \<exists>k. name (h ! d) = Some k \<and> k \<noteq> [] \<and> k \<noteq> ''__proto__''"
  shows "\<forall>d \<in> set ds. d < length h' \<and> h' ! d = h ! d"
proof -
  let ?start = "\<lparr>store_p = h, inherited_p = i, libmap_p = [], parent_p = None,
               newlibraries_p = []\<rparr>"
  let ?st = "forEach_library_p ?start ds"
  have k0: "defaults_kept_p h (set ds) ?start" using assms(2) by (simp add: defaults_kept_p_def)
  have n0: "defaults_known_p h {} ?start" by (simp add: defaults_known_p_def)
  have k1: "defaults_kept_p h (set ds) ?st" by (rule forEach_library_p_kept [OF k0])
  have n1: "defaults_known_p h (set ds) ?st"
    using forEach_library_p_known [OF k0 n0 _ assms(3)] by simp
  obtain st' u where f: "forEach_config_p ?st cs = (st', u)"
    by (cases "forEach_config_p ?st cs")
  from forEach_config_p_kept [OF f k1 n1] have "defaults_kept_p h (set ds) st'" .
  moreover from assms(1) f have "h' = store_p st'"
    by (cases u) (simp_all add: mergeConfig_p_def)
  ultimately show ?thesis by (simp add: defaults_kept_p_def)
qed

section \<open>merge\<close>

lemma builtin_names:
  "\<forall>d \<in> set original_libraries.
     \<exists>k. name (builtin_libraries ! d) = Some k \<and> k \<noteq> [] \<and> k \<noteq> ''__proto__''"
  by (simp add: original_libraries_def builtin_libraries_def builtin_def upt_conv_Cons)

lemma originals_kept_initial: "originals_kept initial_state"
  by (simp add: originals_kept_def initial_state_def original_libraries_def
      builtin_libraries_def)

lemma merge_kept:
  assumes "originals_kept s"
  shows "originals_kept (fst (merge config s))"
proof (cases config)
  case None
  with assms show ?thesis by (auto simp: merge_def originals_kept_def)
next
  case (Some cfg)
  obtain h i u where m: "mergeConfig_p (store_g s, inherited_g s) original_libraries cfg =
      ((h, i), u)"
    by (cases "mergeConfig_p (store_g s, inherited_g s) original_libraries cfg") auto
  from assms have 1: "\<forall>d \<in> set original_libraries. d < length (store_g s)"
    by (simp add: originals_kept_def)
  from assms builtin_names
  have 2: "\<forall>d \<in> set original_libraries.
             \<exists>k. name (store_g s ! d) = Some k \<and> k \<noteq> [] \<and> k \<noteq> ''__proto__''"
    by (simp add: originals_kept_def)
  from mergeConfig_p_keeps_defaults [OF m 1 2] assms
  have k: "\<forall>d \<in> set original_libraries. d < length h \<and> h ! d = builtin_libraries ! d"
    by (simp add: originals_kept_def)
  from Some m have "store_g (fst (merge config s)) = h"
    by (cases u) (auto simp: merge_def)
  with k show ?thesis by (simp add: originals_kept_def)
qed

lemma run_kept:
  assumes "run ops s = Some s'" "originals_kept s"
  shows "originals_kept s'"
  using assms
proof (induction ops arbitrary: s)
  case Nil
  then show ?case by simp
next
  case (Cons x ops)
  show ?case
  proof (cases x)
    case (New l)
    from Cons.prems(2) have "originals_kept (s\<lparr>store_g := store_g s @ [l]\<rparr>)"
      by (auto simp: originals_kept_def nth_append)
    with Cons New show ?thesis by simp
  next
    case (Merge config)
    from Cons.prems(1) Merge have "run ops (fst (merge config s)) = Some s'"
      by (simp split: if_splits)
    with Cons.IH merge_kept [OF Cons.prems(2)] show ?thesis by blast
  qed
qed

text \<open>
  After any sequence of merges, with whatever overrides, \<^verbatim>\<open>merge()\<close> with no argument
  returns the original array and makes it the value of \<^verbatim>\<open>libraries\<close> again, and the
  descriptors in it have the fields of their own that they had before any merge.
\<close>

lemma merge_restores_array:
  assumes "run ops initial_state = Some s"
  shows "snd (merge None s) = Inr original_libraries
     \<and> libraries_g (fst (merge None s)) = libraries_g initial_state
     \<and> map (\<lambda>a. store_g (fst (merge None s)) ! a) (libraries_g (fst (merge None s)))
         = map (\<lambda>a. store_g initial_state ! a) (libraries_g initial_state)"
proof -
  from run_kept [OF assms originals_kept_initial] have k: "originals_kept s" .
  have "map (\<lambda>a. store_g s ! a) original_libraries
      = map (\<lambda>a. builtin_libraries ! a) original_libraries"
    using k by (simp add: originals_kept_def)
  then show ?thesis by (simp add: merge_def initial_state_def)
qed

section \<open>The two stores agree\<close>

text \<open>
  Where \<^verbatim>\<open>Object.prototype\<close> has been given nothing and the run of \<^verbatim>\<open>mergeConfig\<close> in
  the store of descriptors alone returns or throws, the run in the store with
  \<^verbatim>\<open>Object.prototype\<close> does the same, to the same descriptors.
\<close>

lemma copy_library_agrees:
  "copy_library st a = Returns st' \<Longrightarrow> copy_library_p (with_prototype st) a = with_prototype st'"
  by (auto simp: copy_library_def copy_library_p_def with_prototype_def Let_def
           split: option.splits if_splits)

lemma forEach_library_agrees:
  "forEach_library st as = Returns st' \<Longrightarrow>
   forEach_library_p (with_prototype st) as = with_prototype st'"
  unfolding forEach_library_p_def
proof (induction as arbitrary: st)
  case Nil
  then show ?case by simp
next
  case (Cons a as)
  then show ?case
    by (cases "copy_library st a") (simp_all add: copy_library_agrees)
qed

lemma inherited_value_no_fields [simp]: "inherited_value no_fields k = Nothing"
  by (simp add: inherited_value_def no_fields_def)

lemma forEach_library_no_throw: "forEach_library st as \<noteq> Throws e"
proof (induction as arbitrary: st)
  case Nil
  then show ?case by simp
next
  case (Cons a as)
  have "copy_library st a \<noteq> Throws e'" for e'
    by (simp add: copy_library_def Let_def split: option.splits)
  with Cons show ?case
    by (cases "copy_library st a") simp_all
qed

lemma libmap_find_agrees:
  "libmap_find (with_prototype st) k =
     (case libmap_get (libmap_m st) k of
        Absent \<Rightarrow> Nothing
      | Own a \<Rightarrow> Descriptor a
      | Inherited_function \<Rightarrow> Function_object
      | Object_prototype \<Rightarrow> The_prototype)"
  by (simp add: libmap_find_def libmap_get_def with_prototype_def split: option.splits)

lemma merge_entry_agrees:
  "merge_entry st c = Returns st' \<Longrightarrow>
   merge_entry_p (with_prototype st) c = Inr (with_prototype st')"
  "merge_entry st c = Throws e \<Longrightarrow> merge_entry_p (with_prototype st) c = Inl e"
  by (auto simp: merge_entry_def merge_entry_p_def libmap_find_agrees Let_def
           split: option.splits slot.splits)
     (simp_all add: with_prototype_def)

lemma forEach_config_agrees:
  "forEach_config st cs = (st', Returns u) \<Longrightarrow>
   forEach_config_p (with_prototype st) cs = (with_prototype st', None)"
  "forEach_config st cs = (st', Throws e) \<Longrightarrow>
   forEach_config_p (with_prototype st) cs = (with_prototype st', Some e)"
proof (induction cs arbitrary: st)
  case Nil
  {
    case 1
    then show ?case by simp
  next
    case 2
    then show ?case by simp
  }
next
  case (Cons c cs)
  {
    case 1
    then show ?case
      by (cases "merge_entry st c") (simp_all add: merge_entry_agrees Cons.IH(1))
  next
    case 2
    then show ?case
      by (cases "merge_entry st c") (auto simp: merge_entry_agrees Cons.IH(2))
  }
qed

lemma mergeConfig_agrees:
  "mergeConfig h ds cs = (h', Returns ls) \<Longrightarrow>
   mergeConfig_p (h, no_fields) ds cs = ((h', no_fields), Inr ls)"
  "mergeConfig h ds cs = (h', Throws e) \<Longrightarrow>
   mergeConfig_p (h, no_fields) ds cs = ((h', no_fields), Inl e)"
proof -
  let ?start = "\<lparr>store_m = h, libmap_m = [], newlibraries = []\<rparr>"
  have start: "\<lparr>store_p = h, inherited_p = no_fields, libmap_p = [], parent_p = None,
                newlibraries_p = []\<rparr> = with_prototype ?start"
    by (simp add: with_prototype_def)
  show "mergeConfig_p (h, no_fields) ds cs = ((h', no_fields), Inr ls)"
    if "mergeConfig h ds cs = (h', Returns ls)"
  proof (cases "forEach_library ?start ds")
    case (Returns st)
    obtain st' r where f: "forEach_config st cs = (st', r)" by (cases "forEach_config st cs")
    with that Returns have r: "r = Returns () \<and> h' = store_m st' \<and> ls = newlibraries st'"
      by (cases r) (simp_all add: mergeConfig_def)
    from f r have "forEach_config st cs = (st', Returns ())" by simp
    note a = forEach_library_agrees [OF Returns] forEach_config_agrees(1) [OF this]
    have "store_p (with_prototype st') = store_m st'"
      "inherited_p (with_prototype st') = no_fields"
      "newlibraries_p (with_prototype st') = newlibraries st'"
      by (simp_all add: with_prototype_def)
    with r show ?thesis
      unfolding mergeConfig_p_def fst_conv snd_conv start a by simp
  next
    case (Throws e)
    with that show ?thesis by (simp add: mergeConfig_def)
  next
    case Outside
    with that show ?thesis by (simp add: mergeConfig_def)
  qed
  show "mergeConfig_p (h, no_fields) ds cs = ((h', no_fields), Inl e)"
    if "mergeConfig h ds cs = (h', Throws e)"
  proof (cases "forEach_library ?start ds")
    case (Returns st)
    obtain st' r where f: "forEach_config st cs = (st', r)" by (cases "forEach_config st cs")
    with that Returns have r: "r = Throws e \<and> h' = store_m st'"
      by (cases r) (simp_all add: mergeConfig_def)
    from f r have "forEach_config st cs = (st', Throws e)" by simp
    note a = forEach_library_agrees [OF Returns] forEach_config_agrees(2) [OF this]
    have "store_p (with_prototype st') = store_m st'"
      "inherited_p (with_prototype st') = no_fields"
      by (simp_all add: with_prototype_def)
    with r show ?thesis
      unfolding mergeConfig_p_def fst_conv snd_conv start a by simp
  next
    case (Throws e')
    with forEach_library_no_throw show ?thesis by blast
  next
    case Outside
    with that show ?thesis by (simp add: mergeConfig_def)
  qed
qed

section \<open>A run ends when its calls name objects that exist\<close>

lemma forEach_library_p_length:
  "length (store_p (forEach_library_p st as)) = length (store_p st) + length as"
  unfolding forEach_library_p_def
  by (induction as arbitrary: st) (simp_all add: copy_library_p_fields)

lemma merge_entry_p_length:
  "merge_entry_p st c = Inr st' \<Longrightarrow> length (store_p st') = length (store_p st)"
  by (auto simp: merge_entry_p_def Let_def split: option.splits found.splits)

lemma forEach_config_p_length:
  "forEach_config_p st cs = (st', r) \<Longrightarrow> length (store_p st') = length (store_p st)"
proof (induction cs arbitrary: st)
  case Nil
  then show ?case by simp
next
  case (Cons c cs)
  then show ?case
    by (cases "merge_entry_p st c") (auto dest: merge_entry_p_length)
qed

lemma mergeConfig_p_length:
  assumes "mergeConfig_p (h, i) ds cs = ((h', i'), r)"
  shows "length h' = length h + length ds"
proof -
  let ?st = "forEach_library_p
     \<lparr>store_p = h, inherited_p = i, libmap_p = [], parent_p = None, newlibraries_p = []\<rparr> ds"
  obtain st' u where f: "forEach_config_p ?st cs = (st', u)"
    by (cases "forEach_config_p ?st cs")
  from assms f have "h' = store_p st'"
    by (cases u) (simp_all add: mergeConfig_p_def)
  with forEach_config_p_length [OF f] show ?thesis
    by (simp add: forEach_library_p_length)
qed

lemma merge_length:
  "length (store_g (fst (merge config s))) =
     (case config of None \<Rightarrow> length (store_g s) | Some cfg \<Rightarrow> length (store_g s) + 16)"
proof (cases config)
  case None
  then show ?thesis by (simp add: merge_def)
next
  case (Some cfg)
  obtain h i u where m: "mergeConfig_p (store_g s, inherited_g s) original_libraries cfg =
      ((h, i), u)"
    by (cases "mergeConfig_p (store_g s, inherited_g s) original_libraries cfg") auto
  from Some m have "store_g (fst (merge config s)) = h"
    by (cases u) (auto simp: merge_def)
  with mergeConfig_p_length [OF m] Some show ?thesis
    by (simp add: original_libraries_def)
qed

lemma run_existing:
  "(run ops s \<noteq> None) = existing (length (store_g s)) ops"
proof (induction ops arbitrary: s)
  case Nil
  then show ?case by simp
next
  case (Cons x ops)
  show ?case
  proof (cases x)
    case (New l)
    with Cons.IH [of "s\<lparr>store_g := store_g s @ [l]\<rparr>"] show ?thesis by simp
  next
    case (Merge config)
    show ?thesis
    proof (cases config)
      case None
      with Merge Cons.IH [of "fst (merge None s)"] show ?thesis
        by (simp add: merge_length)
    next
      case (Some cfg)
      have "list_ex (\<lambda>a. length (store_g s) \<le> a) cfg =
              (\<not> list_all (\<lambda>a. a < length (store_g s)) cfg)"
        by (auto simp: list_ex_iff list_all_iff not_less)
      with Some Merge Cons.IH [of "fst (merge (Some cfg) s)"] show ?thesis
        by (simp add: merge_length)
    qed
  qed
qed

section \<open>Without an override named __proto__ nothing is inherited\<close>

lemma unnamed_proto_update:
  assumes "list_all unnamed_proto xs" "unnamed_proto y"
  shows "list_all unnamed_proto (xs[n := y])"
  using assms by (auto simp: list_all_iff dest!: subsetD [OF set_update_subset_insert])

lemma copy_library_p_clean:
  assumes "clean_p st" "a < length (store_p st)"
  shows "clean_p (copy_library_p st a)"
proof -
  from assms have u: "unnamed_proto (store_p st ! a)"
    by (simp add: clean_p_def list_all_length)
  then have "truthy_name (store_p st ! a) \<noteq> Some ''__proto__''"
    by (auto simp: unnamed_proto_def truthy_name_def split: option.splits if_splits)
  with assms(1) u show ?thesis
    by (simp add: clean_p_def copy_library_p_fields copy_library_p_libmap)
qed

lemma forEach_library_p_clean:
  assumes "clean_p st" "\<forall>a \<in> set as. a < length (store_p st)"
  shows "clean_p (forEach_library_p st as)"
  using assms unfolding forEach_library_p_def
proof (induction as arbitrary: st)
  case Nil
  then show ?case by simp
next
  case (Cons a as)
  have "clean_p (copy_library_p st a)"
    using Cons.prems by (simp add: copy_library_p_clean)
  moreover have "\<forall>b \<in> set as. b < length (store_p (copy_library_p st a))"
    using Cons.prems(2) by (auto simp: copy_library_p_fields)
  ultimately show ?case using Cons.IH by simp
qed

lemma merge_entry_p_clean:
  assumes "merge_entry_p st c = Inr st'" "clean_p st" "c < length (store_p st)"
  shows "clean_p st'"
proof (cases "truthy_name (store_p st ! c)")
  case None
  with assms show ?thesis by (simp add: merge_entry_p_def Let_def clean_p_def)
next
  case (Some k)
  from assms(2,3) have u: "unnamed_proto (store_p st ! c)"
    by (simp add: clean_p_def list_all_length)
  with Some have k: "name (store_p st ! c) = Some k" "k \<noteq> ''__proto__''"
    by (auto simp: unnamed_proto_def truthy_name_def split: option.splits if_splits)
  from assms(2) have i: "inherited_p st = no_fields" "parent_p st = None"
    and all: "list_all unnamed_proto (store_p st)"
    by (simp_all add: clean_p_def)
  show ?thesis
  proof (cases "libmap_find st k")
    case Nothing
    with assms(1) Some i have st': "st' =
       st\<lparr>store_p := (store_p st)[c := (store_p st ! c)\<lparr>check := Some defaultCheck\<rparr>],
          libmap_p := (k, c) # libmap_p st, newlibraries_p := newlibraries_p st @ [c]\<rparr>"
      by (simp add: merge_entry_p_def Let_def)
    have "unnamed_proto ((store_p st ! c)\<lparr>check := Some defaultCheck\<rparr>)"
      using u by (simp add: unnamed_proto_def)
    from unnamed_proto_update [OF all this] i show ?thesis
      by (simp add: st' clean_p_def)
  next
    case (Descriptor t)
    with assms(1) Some i have st': "st' =
       st\<lparr>store_p := (store_p st)[t := overlay (store_p st ! t) (store_p st ! c)]\<rparr>"
      by (simp add: merge_entry_p_def Let_def)
    have "unnamed_proto (overlay (store_p st ! t) (store_p st ! c))"
      using k by (simp add: unnamed_proto_def overlay_def field_over_def)
    from unnamed_proto_update [OF all this] i show ?thesis
      by (simp add: st' clean_p_def)
  next
    case The_prototype
    with k(2) i show ?thesis
      by (auto simp: libmap_find_def split: option.splits if_splits)
  next
    case Function_object
    with assms(1) Some i show ?thesis by (simp add: merge_entry_p_def Let_def)
  next
    case Primitive
    with assms(1) Some i show ?thesis by (simp add: merge_entry_p_def Let_def)
  next
    case Plain_object
    with assms(1,2) Some i show ?thesis by (simp add: merge_entry_p_def Let_def)
  qed
qed

lemma forEach_config_p_clean:
  assumes "forEach_config_p st cs = (st', r)" "clean_p st"
    "\<forall>c \<in> set cs. c < length (store_p st)"
  shows "clean_p st'"
  using assms
proof (induction cs arbitrary: st)
  case Nil
  then show ?case by simp
next
  case (Cons c cs)
  show ?case
  proof (cases "merge_entry_p st c")
    case (Inr st1)
    with Cons.prems(1) have f: "forEach_config_p st1 cs = (st', r)" by simp
    have "clean_p st1" using merge_entry_p_clean [OF Inr Cons.prems(2)] Cons.prems(3) by simp
    moreover have "\<forall>b \<in> set cs. b < length (store_p st1)"
      using Cons.prems(3) merge_entry_p_length [OF Inr] by simp
    ultimately show ?thesis using Cons.IH [OF f] by blast
  next
    case (Inl e)
    with Cons.prems show ?thesis by simp
  qed
qed

lemma merge_clean:
  assumes "clean s" "originals_kept s"
    "case config of None \<Rightarrow> True | Some cfg \<Rightarrow> \<forall>c \<in> set cfg. c < length (store_g s)"
  shows "clean (fst (merge config s))"
proof (cases config)
  case None
  with assms(1) show ?thesis by (simp add: merge_def clean_def)
next
  case (Some cfg)
  let ?start = "\<lparr>store_p = store_g s, inherited_p = inherited_g s, libmap_p = [],
                parent_p = None, newlibraries_p = []\<rparr>"
  let ?st = "forEach_library_p ?start original_libraries"
  obtain st' u where f: "forEach_config_p ?st cfg = (st', u)"
    by (cases "forEach_config_p ?st cfg")
  have "clean_p ?start" using assms(1) by (simp add: clean_def clean_p_def)
  moreover have "\<forall>a \<in> set original_libraries. a < length (store_p ?start)"
    using assms(2) by (simp add: originals_kept_def)
  ultimately have c: "clean_p ?st" by (rule forEach_library_p_clean)
  have "\<forall>c \<in> set cfg. c < length (store_p ?st)"
    using assms(3) Some by (auto simp: forEach_library_p_length)
  from forEach_config_p_clean [OF f c this] have "clean_p st'" .
  moreover from Some f have "store_g (fst (merge config s)) = store_p st'"
    "inherited_g (fst (merge config s)) = inherited_p st'"
    by (cases u; simp add: merge_def mergeConfig_p_def)+
  ultimately show ?thesis by (simp add: clean_def clean_p_def)
qed

lemma run_clean:
  assumes "run ops s = Some s'" "clean s" "originals_kept s"
    "Some ''__proto__'' \<notin> set (new_names ops)"
  shows "clean s'"
  using assms
proof (induction ops arbitrary: s)
  case Nil
  then show ?case by simp
next
  case (Cons x ops)
  show ?case
  proof (cases x)
    case (New l)
    let ?s = "s\<lparr>store_g := store_g s @ [l]\<rparr>"
    from Cons.prems(4) New have "unnamed_proto l" by (auto simp: unnamed_proto_def)
    with Cons.prems(2) have "clean ?s" by (simp add: clean_def)
    moreover from Cons.prems(3) have "originals_kept ?s"
      by (auto simp: originals_kept_def nth_append)
    ultimately show ?thesis using Cons.IH [of ?s] Cons.prems(1,4) New by simp
  next
    case (Merge config)
    from Cons.prems(1) Merge have r: "run ops (fst (merge config s)) = Some s'"
      and v: "case config of None \<Rightarrow> True | Some cfg \<Rightarrow> \<forall>c \<in> set cfg. c < length (store_g s)"
      by (auto simp: list_ex_iff not_le split: if_splits option.splits)
    from merge_clean [OF Cons.prems(2,3) v] merge_kept [OF Cons.prems(3)]
      Cons.IH [OF r] Cons.prems(4) Merge
    show ?thesis by simp
  qed
qed

text \<open>
  So when no override is named \<^verbatim>\<open>__proto__\<close>, \<^verbatim>\<open>merge()\<close> gives back the registry as the
  analyzer read it before any merge.
\<close>

lemma merge_restores_registry:
  assumes "run ops initial_state = Some s" "Some ''__proto__'' \<notin> set (new_names ops)"
  shows "registry (fst (merge None s)) = registry initial_state"
proof -
  have "clean initial_state"
    by (simp add: clean_def initial_state_def builtin_libraries_def builtin_def
        unnamed_proto_def)
  from run_clean [OF assms(1) this originals_kept_initial assms(2)]
  have i: "inherited_g s = no_fields" by (simp add: clean_def)
  from run_kept [OF assms(1) originals_kept_initial] have k: "originals_kept s" .
  have "map (\<lambda>a. store_g s ! a) original_libraries
      = map (\<lambda>a. builtin_libraries ! a) original_libraries"
    using k by (simp add: originals_kept_def)
  with i show ?thesis
    by (simp add: registry_def merge_def initial_state_def)
qed

section \<open>With an override named __proto__ a merge is not undone\<close>

lemma forEach_library_p_plain:
  assumes "\<forall>a \<in> set as. a < length (store_p st) \<and>
             truthy_name (through (inherited_p st) (store_p st ! a)) \<noteq> Some ''__proto__''"
  shows "parent_p (forEach_library_p st as) = parent_p st
     \<and> inherited_p (forEach_library_p st as) = inherited_p st
     \<and> map_of (libmap_p (forEach_library_p st as)) ''__proto__'' =
         map_of (libmap_p st) ''__proto__''
     \<and> take (length (store_p st)) (store_p (forEach_library_p st as)) = store_p st"
  using assms unfolding forEach_library_p_def
proof (induction as arbitrary: st)
  case Nil
  then show ?case by simp
next
  case (Cons a as)
  let ?st = "copy_library_p st a"
  from Cons.prems have a: "a < length (store_p st)"
    "truthy_name (through (inherited_p st) (store_p st ! a)) \<noteq> Some ''__proto__''"
    by simp_all
  have 1: "parent_p ?st = parent_p st" "inherited_p ?st = inherited_p st"
    "map_of (libmap_p ?st) ''__proto__'' = map_of (libmap_p st) ''__proto__''"
    using a(2) by (auto simp: copy_library_p_fields copy_library_p_libmap split: option.splits)
  have "\<forall>b \<in> set as. b < length (store_p ?st) \<and>
          truthy_name (through (inherited_p ?st) (store_p ?st ! b)) \<noteq> Some ''__proto__''"
    using Cons.prems by (auto simp: copy_library_p_fields nth_append)
  from Cons.IH [OF this] 1
  have 2: "parent_p (foldl copy_library_p ?st as) = parent_p st"
    "inherited_p (foldl copy_library_p ?st as) = inherited_p st"
    "map_of (libmap_p (foldl copy_library_p ?st as)) ''__proto__'' =
       map_of (libmap_p st) ''__proto__''"
    and 3: "take (length (store_p ?st)) (store_p (foldl copy_library_p ?st as)) = store_p ?st"
    by simp_all
  from 3 have "take (length (store_p st)) (take (length (store_p ?st))
                 (store_p (foldl copy_library_p ?st as))) = take (length (store_p st)) (store_p ?st)"
    by simp
  then have "take (length (store_p st)) (store_p (foldl copy_library_p ?st as)) = store_p st"
    by (simp add: copy_library_p_fields min_def)
  with 2 show ?case by simp
qed

lemma checkScript_loop_skipped:
  "list_all (\<lambda>d. skip d = Some True) libs \<Longrightarrow>
   checkScript_loop engine js website libs = Inr \<lparr>passed_s = True, data_s = None\<rparr>"
  by (induction libs) simp_all

lemma check_loop_skipped:
  "list_all (\<lambda>d. skip d = Some True) libs \<Longrightarrow>
   check_loop engine libs website scripts test = Inr test"
  by (induction scripts) (simp_all add: checkScript_def checkScript_loop_skipped)

lemma builtin_through_skip:
  "skip i = Some True \<Longrightarrow> list_all (\<lambda>d. skip d = Some True) (map (through i) builtin_libraries)"
  by (simp add: builtin_libraries_def builtin_def through_def overlay_def field_over_def)

text \<open>
  Claim C7. The claim holds of every sequence of merges in which no override is named
  \<^verbatim>\<open>__proto__\<close> (the lemmas above). It fails of an override of that name: \<^verbatim>\<open>mergeConfig\<close>
  writes its fields into \<^verbatim>\<open>Object.prototype\<close>, and \<^verbatim>\<open>merge()\<close> does not take them out
  again. After \<^verbatim>\<open>merge([{name: "__proto__", skip: true}])\<close> and \<^verbatim>\<open>merge()\<close> the variable
  \<^verbatim>\<open>libraries\<close> is the original array, and its descriptors have the fields of their own
  that they had; but each of them now reads \<^verbatim>\<open>skip\<close> as \<^verbatim>\<open>true\<close>, the registry is not
  the one of before the merge, and the analyzer passes every website.
\<close>

theorem merge_proto_not_undone:
  assumes "name l = Some ''__proto__''" and "skip l = Some True"
  shows "\<exists>s. run [New l, Merge (Some [16]), Merge None] initial_state = Some s
     \<and> libraries_g s = original_libraries
     \<and> map (\<lambda>a. store_g s ! a) (libraries_g s) = builtin_libraries
     \<and> list_all (\<lambda>d. skip d = Some True) (registry s)
     \<and> registry s \<noteq> registry initial_state
     \<and> (\<forall>engine website.
           check_libs engine (registry s) website =
             Inr \<lparr>testName_t = ''jslibs'', url_t = href_w website, passed_t = True,
                  data_t = []\<rparr>)"
proof -
  let ?s1 = "\<lparr>store_g = builtin_libraries @ [l], inherited_g = no_fields,
              libraries_g = original_libraries\<rparr>"
  let ?s2 = "fst (merge (Some [16]) ?s1)"
  let ?s3 = "fst (merge None ?s2)"
  have len: "length builtin_libraries = 16"
    by (simp add: builtin_libraries_def)
  have run: "run [New l, Merge (Some [16]), Merge None] initial_state = Some ?s3"
    by (simp add: initial_state_def len)
  have libraries: "libraries_g ?s3 = original_libraries"
    by (simp add: merge_def)
  from run_kept [OF run originals_kept_initial] have kept: "originals_kept ?s3" .
  then have own: "map (\<lambda>a. store_g ?s3 ! a) original_libraries = builtin_libraries"
    by (simp add: originals_kept_def original_libraries_def builtin_libraries_def
        upt_conv_Cons)
  have written: "inherited_g ?s2 = l"
  proof -
    let ?start = "\<lparr>store_p = builtin_libraries @ [l], inherited_p = no_fields, libmap_p = [],
                  parent_p = None, newlibraries_p = []\<rparr>"
    let ?st = "forEach_library_p ?start original_libraries"
    have "\<forall>a \<in> set original_libraries. a < length (store_p ?start) \<and>
            truthy_name (through (inherited_p ?start) (store_p ?start ! a)) \<noteq> Some ''__proto__''"
      by (simp add: original_libraries_def builtin_libraries_def builtin_def upt_conv_Cons
          truthy_name_def)
    with len
    have p: "parent_p ?st = None" "inherited_p ?st = no_fields"
      "map_of (libmap_p ?st) ''__proto__'' = None"
      and t: "take 17 (store_p ?st) = builtin_libraries @ [l]"
      using forEach_library_p_plain [of original_libraries ?start]
      by simp_all
    have "store_p ?st ! 16 = take 17 (store_p ?st) ! 16" by simp
    also have "\<dots> = l" by (simp only: t) (simp add: nth_append len)
    finally have c: "store_p ?st ! 16 = l" .
    have "truthy_name l = Some ''__proto__''"
      using assms(1) by (simp add: truthy_name_def)
    moreover have "libmap_find ?st ''__proto__'' = The_prototype"
      using p by (simp add: libmap_find_def)
    ultimately have "merge_entry_p ?st 16 = Inr (?st\<lparr>inherited_p := l\<rparr>)"
      using p(2) c by (simp add: merge_entry_p_def Let_def)
    then have "forEach_config_p ?st [16] = (?st\<lparr>inherited_p := l\<rparr>, None)"
      by simp
    then show ?thesis
      by (simp add: merge_def mergeConfig_p_def)
  qed
  have "inherited_g ?s3 = inherited_g ?s2"
    by (simp add: merge_def)
  with written have inherited: "inherited_g ?s3 = l"
    by simp
  have "registry ?s3 = map (through l) (map (\<lambda>a. store_g ?s3 ! a) original_libraries)"
    by (simp only: registry_def libraries inherited map_map o_def)
  with own have registry: "registry ?s3 = map (through l) builtin_libraries"
    by simp
  with builtin_through_skip [OF assms(2)]
  have skipped: "list_all (\<lambda>d. skip d = Some True) (registry ?s3)"
    by simp
  have "registry initial_state = builtin_libraries"
    by (simp add: registry_def initial_state_def original_libraries_def
        builtin_libraries_def upt_conv_Cons)
  moreover have "\<not> list_all (\<lambda>d. skip d = Some True) builtin_libraries"
    by (simp add: builtin_libraries_def builtin_def)
  ultimately have differ: "registry ?s3 \<noteq> registry initial_state"
    using skipped by auto
  have passes: "check_libs engine (registry ?s3) website =
          Inr \<lparr>testName_t = ''jslibs'', url_t = href_w website, passed_t = True, data_t = []\<rparr>"
    for engine website
    unfolding check_libs_def by (rule check_loop_skipped [OF skipped])
  show ?thesis
  proof (rule exI [of _ ?s3], intro conjI allI)
    show "run [New l, Merge (Some [16]), Merge None] initial_state = Some ?s3"
      by (rule run)
    show "libraries_g ?s3 = original_libraries"
      by (rule libraries)
    show "map (\<lambda>a. store_g ?s3 ! a) (libraries_g ?s3) = builtin_libraries"
      by (simp only: libraries own)
    show "list_all (\<lambda>d. skip d = Some True) (registry ?s3)"
      by (rule skipped)
    show "registry ?s3 \<noteq> registry initial_state"
      by (rule differ)
    show "check_libs engine (registry ?s3) website =
            Inr \<lparr>testName_t = ''jslibs'', url_t = href_w website, passed_t = True,
                 data_t = []\<rparr>" for engine website
      by (rule passes)
  qed
qed

text \<open>
  The theorem for that override, on the page of two scripts with an outdated
  Prototype, which the analyzer fails before the merge.
\<close>

theorem merge_proto_not_undone_witness:
  "\<exists>s. run [New proto_skip, Merge (Some [16]), Merge None] initial_state = Some s
     \<and> libraries_g s = original_libraries
     \<and> map (\<lambda>a. store_g s ! a) (libraries_g s) = builtin_libraries
     \<and> list_all (\<lambda>d. skip d = Some True) (registry s)
     \<and> check_libs example_engine (registry s) two_scripts =
         Inr \<lparr>testName_t = ''jslibs'', url_t = ''http://example.com/'', passed_t = True,
              data_t = []\<rparr>
     \<and> map_sum id passed_t (check_libs example_engine (registry initial_state) two_scripts) =
         Inr False"
proof -
  have "name proto_skip = Some ''__proto__''" "skip proto_skip = Some True"
    by (simp_all add: proto_skip_def)
  from merge_proto_not_undone [OF this] obtain s where
    s: "run [New proto_skip, Merge (Some [16]), Merge None] initial_state = Some s"
       "libraries_g s = original_libraries"
       "map (\<lambda>a. store_g s ! a) (libraries_g s) = builtin_libraries"
       "list_all (\<lambda>d. skip d = Some True) (registry s)"
    and c: "\<And>engine website.
           check_libs engine (registry s) website =
             Inr \<lparr>testName_t = ''jslibs'', url_t = href_w website, passed_t = True,
                  data_t = []\<rparr>"
    by blast
  have "href_w two_scripts = ''http://example.com/''"
    by (simp add: two_scripts_def)
  with c [of example_engine two_scripts]
  have after: "check_libs example_engine (registry s) two_scripts =
         Inr \<lparr>testName_t = ''jslibs'', url_t = ''http://example.com/'', passed_t = True,
              data_t = []\<rparr>"
    by simp
  have before:
    "map_sum id passed_t (check_libs example_engine (registry initial_state) two_scripts) =
       Inr False"
    by code_simp
  from s after before show ?thesis
    by (intro exI [of _ s] conjI)
qed

text \<open>The same run, evaluated.\<close>

lemma merge_proto_example:
  "map_option (\<lambda>s. (libraries_g s, inherited_g s, map skip (registry s)))
     (run [New proto_skip, Merge (Some [16]), Merge None] initial_state) =
   Some (original_libraries, proto_skip, replicate 16 (Some True))"
  by code_simp

text \<open>
  And where no override is named so, the registry is restored: after a merge that has
  added a descriptor, \<^verbatim>\<open>merge()\<close> gives back the sixteen built-in descriptors as they
  read at the start.
\<close>

lemma merge_restores_example:
  "\<exists>s. run [New my_lib, Merge (Some [16])] initial_state = Some s
     \<and> length (registry s) = 17
     \<and> registry (fst (merge None s)) = builtin_libraries"
proof -
  have "existing (length (store_g initial_state)) [New my_lib, Merge (Some [16])]"
    by (simp add: initial_state_def builtin_libraries_def)
  then obtain s where s: "run [New my_lib, Merge (Some [16])] initial_state = Some s"
    by (auto simp flip: run_existing)
  have "Some ''__proto__'' \<notin> set (new_names [New my_lib, Merge (Some [16])])"
    by (simp add: my_lib_def)
  from merge_restores_registry [OF s this]
  have "registry (fst (merge None s)) = builtin_libraries"
    by (simp add: registry_def initial_state_def original_libraries_def
        builtin_libraries_def upt_conv_Cons)
  moreover have "map_option (\<lambda>s. length (registry s))
                   (run [New my_lib, Merge (Some [16])] initial_state) = Some 17"
    by code_simp
  ultimately show ?thesis using s by auto
qed

section \<open>compareMarkup\<close>

text \<open>
  Claim C8, as amended. For every pair of markup documents, the per-element result
  list of \<^verbatim>\<open>compareMarkup\<close> has one entry per configured element entry, in order. The
  entry holds the two counts: of the elements that the entry's selector matches in the
  parsed document, those whose \<^verbatim>\<open>display\<close> is not \<^verbatim>\<open>none\<close> and whose \<^verbatim>\<open>visibility\<close> is not
  \<^verbatim>\<open>hidden\<close>. Its threshold is the entry's own threshold when it has one that is neither
  0 nor NaN, and the global default otherwise. The element passes exactly when both
  counts are zero or the quotient of the smaller count by the larger one, as a
  binary64 Number, is at least that threshold. The whole comparison passes exactly
  when every entry of the list passes.
\<close>

theorem compareMarkup_elements:
  "results_c (compareMarkup config env markup1 markup2) =
     map (\<lambda>e.
       let countA =
             length
               (filter (\<lambda>el. css env el ''display'' \<noteq> Some ''none'' \<and>
                             css env el ''visibility'' \<noteq> Some ''hidden'')
                  (select env (load env markup1) (name_e e)));
           countB =
             length
               (filter (\<lambda>el. css env el ''display'' \<noteq> Some ''none'' \<and>
                             css env el ''visibility'' \<noteq> Some ''hidden'')
                  (select env (load env markup2) (name_e e)));
           threshold =
             (case threshold_e e of
                Some t \<Rightarrow>
                  if t = NaN \<or> t = Fin 0 then check_markup_default_threshold config else t
              | None \<Rightarrow> check_markup_default_threshold config)
       in \<lparr>element = name_e e,
           threshold_r = threshold,
           edgeCount_r = countA,
           chromeCount_r = countB,
           passed_r =
             (countA = 0 \<and> countB = 0 \<or>
              js_ge (round_double (of_nat (min countA countB) / of_nat (max countA countB)))
                threshold)\<rparr>)
       (check_markup_elements config) \<and>
   passed_c (compareMarkup config env markup1 markup2) =
     list_all passed_r (results_c (compareMarkup config env markup1 markup2))"
proof -
  let ?edge = "load env markup1" and ?chrome = "load env markup2"
  have loop:
    "compareMarkup_loop config env ?edge ?chrome es passed acc =
       \<lparr>passed_c =
          (passed \<and> list_all passed_r (map (compare_element config env ?edge ?chrome) es)),
        results_c = acc @ map (compare_element config env ?edge ?chrome) es\<rparr>"
    for es passed acc
    by (induction es arbitrary: passed acc) (simp_all add: Let_def)
  have threshold:
    "elementThreshold config e =
       (case threshold_e e of
          Some t \<Rightarrow> if t = NaN \<or> t = Fin 0 then check_markup_default_threshold config else t
        | None \<Rightarrow> check_markup_default_threshold config)" for e
    by (auto simp: elementThreshold_def truthy_num_def split: option.splits)
  have element:
    "compare_element config env ?edge ?chrome e =
       (let countA =
              length
                (filter (\<lambda>el. css env el ''display'' \<noteq> Some ''none'' \<and>
                              css env el ''visibility'' \<noteq> Some ''hidden'')
                   (select env ?edge (name_e e)));
            countB =
              length
                (filter (\<lambda>el. css env el ''display'' \<noteq> Some ''none'' \<and>
                              css env el ''visibility'' \<noteq> Some ''hidden'')
                   (select env ?chrome (name_e e)));
            threshold =
              (case threshold_e e of
                 Some t \<Rightarrow>
                   if t = NaN \<or> t = Fin 0 then check_markup_default_threshold config else t
               | None \<Rightarrow> check_markup_default_threshold config)
        in \<lparr>element = name_e e,
            threshold_r = threshold,
            edgeCount_r = countA,
            chromeCount_r = countB,
            passed_r =
              (countA = 0 \<and> countB = 0 \<or>
               js_ge (round_double (of_nat (min countA countB) / of_nat (max countA countB)))
                 threshold)\<rparr>)" for e
    unfolding compare_element_def countElements_def count_ratio_def threshold Let_def
    by auto
  have "compareMarkup config env markup1 markup2 =
          \<lparr>passed_c =
             list_all passed_r
               (map (compare_element config env ?edge ?chrome) (check_markup_elements config)),
           results_c =
             map (compare_element config env ?edge ?chrome) (check_markup_elements config)\<rparr>"
    by (simp add: compareMarkup_def loop Let_def)
  then show ?thesis
    by (simp add: element)
qed

text \<open>
  The theorem at an example, with the two entries \<^verbatim>\<open>div\<close> (threshold 3/10) and \<^verbatim>\<open>p\<close>
  (on the default 1/2). One document has ten \<^verbatim>\<open>div\<close> elements, four more that are not
  displayed, and one paragraph; the other has four \<^verbatim>\<open>div\<close> elements, three paragraphs
  and two hidden ones. The counts leave out what is not visible; \<^verbatim>\<open>div\<close> passes, since
  the Number nearest to 2/5 is at least 3/10, \<^verbatim>\<open>p\<close> fails, since the Number nearest to
  1/3 is below 1/2, and so the comparison fails.
\<close>

theorem compareMarkup_elements_witness:
  "compareMarkup two_elements example_env
     (divs 10 @ hidden_divs 4 @ paragraphs 1)
     (paragraphs 3 @ hidden_paragraphs 2 @ divs 4) =
     \<lparr>passed_c = False,
      results_c = [\<lparr>element = ''div'', threshold_r = Fin (3 / 10), edgeCount_r = 10,
                    chromeCount_r = 4, passed_r = True\<rparr>,
                   \<lparr>element = ''p'', threshold_r = Fin (1 / 2), edgeCount_r = 1,
                    chromeCount_r = 3, passed_r = False\<rparr>]\<rparr>"
proof -
  let ?m1 = "divs 10 @ hidden_divs 4 @ paragraphs 1"
  let ?m2 = "paragraphs 3 @ hidden_paragraphs 2 @ divs 4"
  let ?results =
    "[\<lparr>element = ''div'', threshold_r = Fin (3 / 10), edgeCount_r = 10,
       chromeCount_r = 4, passed_r = True\<rparr>,
      \<lparr>element = ''p'', threshold_r = Fin (1 / 2), edgeCount_r = 1,
       chromeCount_r = 3, passed_r = False\<rparr>]"
  note t = compareMarkup_elements [of two_elements example_env ?m1 ?m2]
  have "results_c (compareMarkup two_elements example_env ?m1 ?m2) =
          map (\<lambda>e.
            let countA =
                  length
                    (filter (\<lambda>el. css example_env el ''display'' \<noteq> Some ''none'' \<and>
                                  css example_env el ''visibility'' \<noteq> Some ''hidden'')
                       (select example_env (load example_env ?m1) (name_e e)));
                countB =
                  length
                    (filter (\<lambda>el. css example_env el ''display'' \<noteq> Some ''none'' \<and>
                                  css example_env el ''visibility'' \<noteq> Some ''hidden'')
                       (select example_env (load example_env ?m2) (name_e e)));
                threshold =
                  (case threshold_e e of
                     Some t \<Rightarrow>
                       if t = NaN \<or> t = Fin 0
                       then check_markup_default_threshold two_elements else t
                   | None \<Rightarrow> check_markup_default_threshold two_elements)
            in \<lparr>element = name_e e,
                threshold_r = threshold,
                edgeCount_r = countA,
                chromeCount_r = countB,
                passed_r =
                  (countA = 0 \<and> countB = 0 \<or>
                   js_ge (round_double
                            (of_nat (min countA countB) / of_nat (max countA countB)))
                     threshold)\<rparr>)
            (check_markup_elements two_elements)"
    by (rule t [THEN conjunct1])
  also have "\<dots> = ?results"
    by code_simp
  finally have results: "results_c (compareMarkup two_elements example_env ?m1 ?m2) = ?results" .
  have "passed_c (compareMarkup two_elements example_env ?m1 ?m2) = list_all passed_r ?results"
    by (simp only: t [THEN conjunct2] results)
  then have "\<not> passed_c (compareMarkup two_elements example_env ?m1 ?m2)"
    by simp
  with results show ?thesis
    by (cases "compareMarkup two_elements example_env ?m1 ?m2") simp
qed

text \<open>The same example, run through the loop itself.\<close>

lemma compareMarkup_example:
  "compareMarkup two_elements example_env
     (divs 10 @ hidden_divs 4 @ paragraphs 1)
     (paragraphs 3 @ hidden_paragraphs 2 @ divs 4) =
     \<lparr>passed_c = False,
      results_c = [\<lparr>element = ''div'', threshold_r = Fin (3 / 10), edgeCount_r = 10,
                    chromeCount_r = 4, passed_r = True\<rparr>,
                   \<lparr>element = ''p'', threshold_r = Fin (1 / 2), edgeCount_r = 1,
                    chromeCount_r = 3, passed_r = False\<rparr>]\<rparr>"
  by code_simp

text \<open>
  Claim C8 as stated fails where an entry's own threshold is 0: \<^verbatim>\<open>0 || default\<close> is
  the default. With one \<^verbatim>\<open>div\<close> in one document and five in the other the quotient is
  the Number nearest to 1/5, which is at least the entry's threshold 0, and yet the
  element fails, against the default 1/2.
\<close>

theorem compareMarkup_zero_threshold_counterexample:
  "compareMarkup (example_config (Some (Fin 0))) example_env (divs 1) (divs 5) =
     \<lparr>passed_c = False,
      results_c = [\<lparr>element = ''div'', threshold_r = Fin (1 / 2), edgeCount_r = 1,
                    chromeCount_r = 5, passed_r = False\<rparr>]\<rparr> \<and>
   threshold_e (hd (check_markup_elements (example_config (Some (Fin 0))))) = Some (Fin 0) \<and>
   js_ge (round_double (of_nat (min 1 5) / of_nat (max 1 5))) (Fin 0)"
  by code_simp

section \<open>getBody\<close>

lemma getBody_gzip:
  "getBody env \<lparr>content_encoding = Some ''gzip''\<rparr> body =
     (case gunzip env body of
        Inr data \<Rightarrow> resolve_text env data ''gzip''
      | Inl err \<Rightarrow> Rejected (Text (''Error found: can't gunzip content '' @ err)))"
  by (simp add: getBody_def decompress_def)

lemma getBody_deflate:
  "getBody env \<lparr>content_encoding = Some ''deflate''\<rparr> body =
     (case inflateRaw env body of
        Inr data \<Rightarrow> resolve_text env data ''deflate''
      | Inl err \<Rightarrow> Rejected (Text (''Error found: can't deflate content'' @ err)))"
  by (simp add: getBody_def decompress_def)

lemma getBody_unknown_encoding:
  assumes "type \<noteq> []" "type \<noteq> ''gzip''" "type \<noteq> ''deflate''"
  shows "getBody env \<lparr>content_encoding = Some type\<rparr> body =
           Rejected (Text (''Unknown content encoding: '' @ type))"
  using assms by (simp add: getBody_def decompress_def)

lemma getBody_no_encoding:
  assumes "content_encoding response = None \<or> content_encoding response = Some []"
  shows "getBody env response (Buffer bs) = resolve_text env bs ''none''"
    and "getBody env response NoBody = Rejected (Text ''Error found: Empty body'')"
  using assms by (auto simp: getBody_def)

lemma resolve_text_bound:
  "charset env = Some cs \<Longrightarrow>
   resolve_text env data c = Resolved \<lparr>body_b = toString env data cs, compression = c\<rparr>"
  by (simp add: resolve_text_def)

text \<open>
  Claim C9. Where \<^verbatim>\<open>charset\<close> is bound, the claim holds of a gzip, a deflate and any
  other declared encoding, and of a body that is not empty (the lemmas above). It
  fails of the empty body: the module asks the transport for Buffers, a Buffer of
  length zero is truthy, and with no \<^verbatim>\<open>content-encoding\<close> header \<^verbatim>\<open>getBody\<close> resolves
  with its decoding, the empty text (or, with \<^verbatim>\<open>charset\<close> unbound, does not settle),
  where the rejection \<^verbatim>\<open>Error found: Empty body\<close> was meant.
\<close>

theorem getBody_empty_Buffer:
  "getBody env \<lparr>content_encoding = None\<rparr> (Buffer []) =
     (case charset env of
        Some cs \<Rightarrow> Resolved \<lparr>body_b = toString env [] cs, compression = ''none''\<rparr>
      | None \<Rightarrow> Unsettled)"
  by (simp add: getBody_def resolve_text_def split: option.splits)

theorem getBody_empty_Buffer_witness:
  "getBody example_env \<lparr>content_encoding = None\<rparr> (Buffer []) =
     Resolved \<lparr>body_b = [], compression = ''none''\<rparr>"
  using getBody_empty_Buffer [of example_env] by (simp add: example_env_def)

section \<open>The retry of the markup check\<close>

text \<open>
  Claim C2. Take a site that is not excluded, whose first answer to the module
  arrives and decodes, and whose markup fails the comparison with it. Then the module
  sends a second request, to the same URL with the same \<^verbatim>\<open>User-Agent\<close> as the first;
  and when that one arrives and decodes too, the check resolves from the comparison of
  the two answers: if it fails, with \<^verbatim>\<open>passed\<close> and \<^verbatim>\<open>transient\<close> true and the message
  as data; if it passes, with \<^verbatim>\<open>passed\<close> and \<^verbatim>\<open>transient\<close> false and the per-element
  results of the first comparison as data.
\<close>

theorem check_markup_retry:
  assumes "\<not> isExcluded config (originalUrl_w website)"
    and "request 0 \<lparr>url_q = href_w website, user_agent_q = user_agent_chrome config\<rparr> =
           Inr (response, body)"
    and "getBody env response body = Resolved r"
    and "\<not> passed_c (compareMarkup config env (content_w website) (body_b r))"
  shows "snd (check_markup config env request website) =
           [\<lparr>url_q = href_w website, user_agent_q = user_agent_chrome config\<rparr>,
            \<lparr>url_q = href_w website, user_agent_q = user_agent_chrome config\<rparr>] \<and>
         (\<forall>response2 body2 r2.
            request 1 \<lparr>url_q = href_w website, user_agent_q = user_agent_chrome config\<rparr> =
              Inr (response2, body2) \<and>
            getBody env response2 body2 = Resolved r2 \<longrightarrow>
            fst (check_markup config env request website) =
              Resolved
                \<lparr>testName_m = ''markup'',
                 passed_m = (\<not> passed_c (compareMarkup config env (body_b r) (body_b r2))),
                 excluded_m = None,
                 transient_m =
                   Some (\<not> passed_c (compareMarkup config env (body_b r) (body_b r2))),
                 data_m =
                   (if passed_c (compareMarkup config env (body_b r) (body_b r2))
                    then ElementResults
                           (results_c (compareMarkup config env (content_w website) (body_b r)))
                    else Message transient_message)\<rparr>)"
  using assms
  by (auto simp: check_markup_def Let_def split: sum.splits prod.splits promise.splits)

text \<open>
  The theorem at an example: the crawler saw ten \<^verbatim>\<open>div\<close> elements, the site answers
  the module with four, and with four again. The check fails, with the results of the
  first comparison.
\<close>

theorem check_markup_retry_witness:
  "check_markup (example_config None) example_env (example_request 4 4) example_website =
     (Resolved
        \<lparr>testName_m = ''markup'', passed_m = False, excluded_m = None,
         transient_m = Some False,
         data_m =
           ElementResults
             [\<lparr>element = ''div'', threshold_r = Fin (1 / 2), edgeCount_r = 10,
               chromeCount_r = 4, passed_r = False\<rparr>]\<rparr>,
      [\<lparr>url_q = ''http://example.com/'', user_agent_q = ''Chrome''\<rparr>,
       \<lparr>url_q = ''http://example.com/'', user_agent_q = ''Chrome''\<rparr>])"
proof -
  let ?req = "\<lparr>url_q = href_w example_website,
               user_agent_q = user_agent_chrome (example_config None)\<rparr>"
  let ?r = "\<lparr>body_b = divs 4, compression = ''none''\<rparr>"
  have req: "?req = \<lparr>url_q = ''http://example.com/'', user_agent_q = ''Chrome''\<rparr>"
    by (simp add: example_website_def example_config_def)
  have h1: "\<not> isExcluded (example_config None) (originalUrl_w example_website)"
    by code_simp
  have h2: "example_request 4 4 0 ?req =
              Inr (\<lparr>content_encoding = None\<rparr>, Buffer (map of_char (divs 4)))"
    by (simp add: req example_request_def)
  have h3: "getBody example_env \<lparr>content_encoding = None\<rparr> (Buffer (map of_char (divs 4))) =
              Resolved ?r"
    by code_simp
  have h4: "\<not> passed_c (compareMarkup (example_config None) example_env
                           (content_w example_website) (body_b ?r))"
    by code_simp
  have h5: "example_request 4 4 1 ?req =
              Inr (\<lparr>content_encoding = None\<rparr>, Buffer (map of_char (divs 4)))"
    by (simp add: req example_request_def)
  have c1: "results_c (compareMarkup (example_config None) example_env
                         (content_w example_website) (body_b ?r)) =
              [\<lparr>element = ''div'', threshold_r = Fin (1 / 2), edgeCount_r = 10,
                chromeCount_r = 4, passed_r = False\<rparr>]"
    by code_simp
  have c2: "passed_c (compareMarkup (example_config None) example_env (body_b ?r) (body_b ?r))"
    by code_simp
  note t = check_markup_retry
    [where config = "example_config None" and website = example_website
       and request = "example_request 4 4" and env = example_env, OF h1 h2 h3 h4]
  from t have requests:
    "snd (check_markup (example_config None) example_env (example_request 4 4)
            example_website) = [?req, ?req]"
    by (rule conjunct1)
  from t [THEN conjunct2, rule_format, of "\<lparr>content_encoding = None\<rparr>"
            "Buffer (map of_char (divs 4))" ?r] h5 h3
  have "fst (check_markup (example_config None) example_env (example_request 4 4)
               example_website) =
          Resolved
            \<lparr>testName_m = ''markup'',
             passed_m = (\<not> passed_c (compareMarkup (example_config None) example_env
                                        (body_b ?r) (body_b ?r))),
             excluded_m = None,
             transient_m = Some (\<not> passed_c (compareMarkup (example_config None) example_env
                                               (body_b ?r) (body_b ?r))),
             data_m =
               (if passed_c (compareMarkup (example_config None) example_env
                               (body_b ?r) (body_b ?r))
                then ElementResults
                       (results_c (compareMarkup (example_config None) example_env
                                     (content_w example_website) (body_b ?r)))
                else Message transient_message)\<rparr>"
    by blast
  then have outcome:
    "fst (check_markup (example_config None) example_env (example_request 4 4)
            example_website) =
       Resolved
         \<lparr>testName_m = ''markup'', passed_m = False, excluded_m = None,
          transient_m = Some False,
          data_m =
            ElementResults
              [\<lparr>element = ''div'', threshold_r = Fin (1 / 2), edgeCount_r = 10,
                chromeCount_r = 4, passed_r = False\<rparr>]\<rparr>"
    by (simp only: c1 c2 not_True_eq_False if_True)
  from outcome requests show ?thesis
    by (simp only: req prod_eq_iff fst_conv snd_conv simp_thms)
qed

text \<open>
  The other end of the retry: the site answers with four elements and then with one,
  so it disagrees with itself, and the check passes as transient.
\<close>

lemma check_markup_transient_example:
  "check_markup (example_config None) example_env (example_request 4 1) example_website =
     (Resolved
        \<lparr>testName_m = ''markup'', passed_m = True, excluded_m = None,
         transient_m = Some True, data_m = Message transient_message\<rparr>,
      [\<lparr>url_q = ''http://example.com/'', user_agent_q = ''Chrome''\<rparr>,
       \<lparr>url_q = ''http://example.com/'', user_agent_q = ''Chrome''\<rparr>])"
  by code_simp

end
